theory Spec2Isabelle
  imports Complex_Main
begin

section \<open>Data model of textrank.py\<close>

text \<open>
  The four named tuples of the module become records. Field names of \<open>WordNode\<close> are kept;
  the fields of the other tuples carry a prefix, since \<open>pos\<close>, \<open>idx\<close> and \<open>text\<close> occur in
  more than one tuple. Python floats are modelled as mathematical reals (rounding is not
  modelled), Python ints as \<open>int\<close>; the configured limits (\<open>size\<close>, \<open>phrase_limit\<close>,
  \<open>word_limit\<close>) are counts and are modelled as \<open>nat\<close>. Strings are ASCII character lists.
\<close>

record word_node =
  word_id :: int
  raw :: string
  root :: string
  pos :: string
  keep :: int
  idx :: int

record ranked_lexeme =
  rl_text :: string
  rl_rank :: real
  rl_ids :: "int list"
  rl_pos :: string

record summary_sent =
  ss_dist :: real
  ss_idx :: int
  ss_text :: string

text \<open>The exceptions the modelled code can raise.\<close>

datatype py_error =
  IndexError | KeyError | TypeError | ZeroDivisionError | StatisticsError | UnboundLocalError

section \<open>String helpers\<close>

text \<open>\<open>s.split(d)\<close> for a one-character separator: never returns an empty list.\<close>

fun split_acc :: "char \<Rightarrow> string \<Rightarrow> string \<Rightarrow> string list" where
  "split_acc d cur [] = [rev cur]"
| "split_acc d cur (c # cs) =
     (if c = d then rev cur # split_acc d [] cs else split_acc d (c # cur) cs)"

definition split_str :: "char \<Rightarrow> string \<Rightarrow> string list" where
  "split_str d s = split_acc d [] s"

text \<open>\<open>d.join(ws)\<close> for a one-character separator.\<close>

fun join_str :: "char \<Rightarrow> string list \<Rightarrow> string" where
  "join_str d [] = []"
| "join_str d [w] = w"
| "join_str d (w # v # ws) = w @ d # join_str d (v # ws)"

section \<open>Document summarization: limit_sentences\<close>

text \<open>
  \<open>limit_sentences\<close> reads the stream of \<open>SummarySent\<close> records and yields
  \<open>(sent_text, idx)\<close> while the running word count stays within \<open>word_limit\<close>; the
  \<open>break\<close> ends the generator. \<open>word_count\<close> is the loop's state.
\<close>

definition sent_words :: "summary_sent \<Rightarrow> string list" where
  "sent_words p = split_str CHR '' '' (ss_text p)"

fun limit_sentences_loop :: "nat \<Rightarrow> nat \<Rightarrow> summary_sent list \<Rightarrow> (string list \<times> int) list" where
  "limit_sentences_loop word_limit word_count [] = []"
| "limit_sentences_loop word_limit word_count (p # ps) =
     (let sent_text = sent_words p; sent_len = length sent_text in
      if word_count + sent_len > word_limit then []
      else (sent_text, ss_idx p) # limit_sentences_loop word_limit (word_count + sent_len) ps)"

definition limit_sentences :: "summary_sent list \<Rightarrow> nat \<Rightarrow> (string list \<times> int) list" where
  "limit_sentences metas word_limit = limit_sentences_loop word_limit 0 metas"

text \<open>The number of words of the yielded sentences, and of a list of input records.\<close>

definition yielded_words :: "(string list \<times> int) list \<Rightarrow> nat" where
  "yielded_words ys = sum_list (map (\<lambda>y. length (fst y)) ys)"

definition input_words :: "summary_sent list \<Rightarrow> nat" where
  "input_words ps = sum_list (map (\<lambda>p. length (sent_words p)) ps)"

definition yield_of :: "summary_sent \<Rightarrow> string list \<times> int" where
  "yield_of p = (sent_words p, ss_idx p)"

section \<open>Document summarization: limit_keyphrases\<close>

text \<open>
  A generator is modelled by the list of values it yields together with the exception
  that ended it, if any. \<open>limit_keyphrases\<close> first materialises the stream, takes
  \<open>statistics.mean\<close> of the ranks (which raises \<open>StatisticsError\<close> on no data), and
  then scans the lexemes with the counter \<open>used\<close>; \<open>rl.pos[0]\<close> raises \<open>IndexError\<close>
  on an empty \<open>pos\<close>, and \<open>return\<close> ends the generator.
\<close>

type_synonym 'a gen = "'a list \<times> py_error option"

fun limit_keyphrases_loop :: "real \<Rightarrow> nat \<Rightarrow> nat \<Rightarrow> ranked_lexeme list \<Rightarrow> string gen" where
  "limit_keyphrases_loop rank_thresh phrase_limit used [] = ([], None)"
| "limit_keyphrases_loop rank_thresh phrase_limit used (rl # rls) =
     (case rl_pos rl of
        [] \<Rightarrow> ([], Some IndexError)
      | c # _ \<Rightarrow>
          if c \<noteq> CHR ''v'' then
            if used > phrase_limit \<or> rl_rank rl < rank_thresh then ([], None)
            else (case limit_keyphrases_loop rank_thresh phrase_limit (used + 1) rls of
                    (ys, e) \<Rightarrow> (rl_text rl # ys, e))
          else limit_keyphrases_loop rank_thresh phrase_limit used rls)"

definition mean :: "real list \<Rightarrow> py_error + real" where
  "mean xs = (if xs = [] then Inl StatisticsError else Inr (sum_list xs / real (length xs)))"

definition limit_keyphrases :: "ranked_lexeme list \<Rightarrow> nat \<Rightarrow> string gen" where
  "limit_keyphrases lexemes phrase_limit =
     (case mean (map rl_rank lexemes) of
        Inl e \<Rightarrow> ([], Some e)
      | Inr rank_thresh \<Rightarrow> limit_keyphrases_loop rank_thresh phrase_limit 0 lexemes)"

section \<open>Graph analytics: get_tiles and build_graph\<close>

text \<open>
  \<open>get_tiles\<close> keeps the tokens with a positive \<open>word_id\<close> and runs two nested \<open>range\<close>
  loops over the kept list; the pairs are yielded in loop order (\<open>sz\<close> is the parameter
  \<open>size\<close>). For an empty kept list
  \<open>range(0, -1)\<close> is empty, as is \<open>[0..<0 - 1]\<close> over \<open>nat\<close>.
\<close>

definition keeps_of :: "word_node list \<Rightarrow> word_node list" where
  "keeps_of graf = filter (\<lambda>w. word_id w > 0) graf"

definition get_tiles :: "word_node list \<Rightarrow> nat \<Rightarrow> (string \<times> string) list" where
  "get_tiles graf sz =
     (let keeps = keeps_of graf; keeps_len = length keeps in
      concat (map (\<lambda>i. let w0 = keeps ! i in
                concat (map (\<lambda>j. let w1 = keeps ! j in
                          if idx w1 - idx w0 \<le> int sz then [(root w0, root w1)] else [])
                        [i + 1 ..< min keeps_len (i + 1 + sz)]))
              [0 ..< keeps_len - 1]))"

text \<open>
  The directed graph: its node set and the \<open>weight\<close> attribute of its edges. For a pair,
  \<open>build_graph\<close> adds both nodes, then increments the weight of the edge, or creates the
  edge with weight \<open>1.0\<close> when the lookup raises \<open>KeyError\<close>.
\<close>

record graph =
  g_nodes :: "string set"
  g_edges :: "(string \<times> string) \<rightharpoonup> real"

definition empty_graph :: graph where
  "empty_graph = \<lparr>g_nodes = {}, g_edges = Map.empty\<rparr>"

definition add_pair :: "graph \<Rightarrow> string \<times> string \<Rightarrow> graph" where
  "add_pair g pair =
     (let g1 = g\<lparr>g_nodes := insert (snd pair) (insert (fst pair) (g_nodes g))\<rparr> in
      case g_edges g1 pair of
        Some w \<Rightarrow> g1\<lparr>g_edges := (g_edges g1)(pair \<mapsto> w + 1)\<rparr>
      | None \<Rightarrow> g1\<lparr>g_edges := (g_edges g1)(pair \<mapsto> 1)\<rparr>)"

definition add_sentence :: "graph \<Rightarrow> word_node list \<Rightarrow> graph" where
  "add_sentence g graf = foldl add_pair g (get_tiles graf 3)"

definition build_graph :: "word_node list list \<Rightarrow> graph" where
  "build_graph grafs = foldl add_sentence empty_graph grafs"

text \<open>All pairs that \<open>build_graph\<close> receives from the tiler, in order.\<close>

definition all_tiles :: "word_node list list \<Rightarrow> (string \<times> string) list" where
  "all_tiles grafs = concat (map (\<lambda>graf. get_tiles graf 3) grafs)"

section \<open>Key phrases: find_chunk, collect_chunks and normalize_key_phrases\<close>

text \<open>\<open>str.lower\<close> on ASCII strings.\<close>

definition lower_char :: "char \<Rightarrow> char" where
  "lower_char c =
     (case map_of (zip ''ABCDEFGHIJKLMNOPQRSTUVWXYZ'' ''abcdefghijklmnopqrstuvwxyz'') c of
        Some d \<Rightarrow> d
      | None \<Rightarrow> c)"

definition lower :: "string \<Rightarrow> string" where
  "lower s = map lower_char s"

text \<open>
  The collaborators of the phrase normalizer that are not part of the module: the noun
  phrase chunker \<open>textblob.TextBlob(text).noun_phrases\<close>, and the order in which CPython
  iterates over the set built by \<open>set.union\<close> from the given member ids
  (\<open>list(set.union(...))\<close>); no property of either is assumed.
\<close>

record collab =
  noun_phrases :: "string \<Rightarrow> string list"
  set_order :: "int list \<Rightarrow> int list"

text \<open>
  \<open>find_chunk_sub\<close>: the loop over \<open>j\<close> runs along \<open>np\<close> with \<open>k = i + j\<close>; the read
  \<open>phrase[i + j]\<close> raises \<open>IndexError\<close> past the end of \<open>phrase\<close>. The result \<open>None\<close> of
  the source is \<open>Inr None\<close>.
\<close>

fun find_chunk_sub_loop :: "ranked_lexeme list \<Rightarrow> nat \<Rightarrow> string list \<Rightarrow> py_error + bool" where
  "find_chunk_sub_loop phrase k [] = Inr True"
| "find_chunk_sub_loop phrase k (n # ns) =
     (if k < length phrase then
        (if rl_text (phrase ! k) \<noteq> n then Inr False
         else find_chunk_sub_loop phrase (k + 1) ns)
      else Inl IndexError)"

definition find_chunk_sub ::
  "ranked_lexeme list \<Rightarrow> string list \<Rightarrow> nat \<Rightarrow> py_error + ranked_lexeme list option" where
  "find_chunk_sub phrase np i =
     (case find_chunk_sub_loop phrase i np of
        Inl e \<Rightarrow> Inl e
      | Inr False \<Rightarrow> Inr None
      | Inr True \<Rightarrow> Inr (Some (take (length np) (drop i phrase))))"

text \<open>
  \<open>find_chunk\<close> returns the first truthy result (a non-empty list) and falls off the end
  of the loop, returning \<open>None\<close>, when no start position matches.
\<close>

fun find_chunk_from ::
  "ranked_lexeme list \<Rightarrow> string list \<Rightarrow> nat list \<Rightarrow> py_error + ranked_lexeme list option" where
  "find_chunk_from phrase np [] = Inr None"
| "find_chunk_from phrase np (i # is) =
     (case find_chunk_sub phrase np i of
        Inl e \<Rightarrow> Inl e
      | Inr (Some (x # xs)) \<Rightarrow> Inr (Some (x # xs))
      | Inr _ \<Rightarrow> find_chunk_from phrase np is)"

definition find_chunk ::
  "ranked_lexeme list \<Rightarrow> string list \<Rightarrow> py_error + ranked_lexeme list option" where
  "find_chunk phrase np = find_chunk_from phrase np [0 ..< length phrase]"

text \<open>
  \<open>collect_chunks\<close> is a generator of pairs \<open>(np, find_chunk(phrase, np.split(" ")))\<close>.
  \<open>collect_chunks_loop\<close> is its loop over the chunker's phrases and also returns the flag
  \<open>found\<close>. The list comprehension inside \<open>all\<close> reads \<open>rl.pos[0]\<close> of every member, so an
  empty \<open>pos\<close> raises \<open>IndexError\<close>.
\<close>

fun collect_chunks_loop ::
  "ranked_lexeme list \<Rightarrow> string \<Rightarrow> string list \<Rightarrow>
     bool \<times> (string \<times> ranked_lexeme list option) gen" where
  "collect_chunks_loop phrase txt [] = (False, [], None)"
| "collect_chunks_loop phrase txt (np # nps) =
     (if np \<noteq> txt then
        (case find_chunk phrase (split_str CHR '' '' np) of
           Inl e \<Rightarrow> (True, [], Some e)
         | Inr r \<Rightarrow>
             (case collect_chunks_loop phrase txt nps of
                (found, ys, e) \<Rightarrow> (True, (np, r) # ys, e)))
      else collect_chunks_loop phrase txt nps)"

definition collect_chunks ::
  "collab \<Rightarrow> ranked_lexeme list \<Rightarrow> (string \<times> ranked_lexeme list option) gen" where
  "collect_chunks c phrase =
     (if length phrase > 1 then
        (let txt = join_str CHR '' '' (map rl_text phrase) in
         case collect_chunks_loop phrase txt (noun_phrases c txt) of
           (found, ys, Some e) \<Rightarrow> (ys, Some e)
         | (found, ys, None) \<Rightarrow>
             if \<not> found then
               (if list_ex (\<lambda>rl. rl_pos rl = []) phrase then (ys, Some IndexError)
                else if list_all (\<lambda>rl. hd (rl_pos rl) \<noteq> CHR ''v'') phrase
                  then (ys @ [(txt, Some phrase)], None)
                  else (ys, None))
             else (ys, None))
      else ([], None))"

text \<open>
  The dictionary \<open>lex\<close>, keyed by \<open>str(ids)\<close> (modelled by the id list itself), as an
  association list in insertion order: assigning to a present key replaces its value in
  place, assigning to a new key appends.
\<close>

type_synonym lexmap = "(int list \<times> ranked_lexeme) list"

fun dict_set :: "'k \<Rightarrow> 'v \<Rightarrow> ('k \<times> 'v) list \<Rightarrow> ('k \<times> 'v) list" where
  "dict_set k v [] = [(k, v)]"
| "dict_set k v ((k', v') # kvs) =
     (if k' = k then (k, v) # kvs else (k', v') # dict_set k v kvs)"

text \<open>The lexeme built for a token \<open>w\<close> whose root has rank \<open>r\<close>.\<close>

definition word_lexeme :: "word_node \<Rightarrow> real \<Rightarrow> ranked_lexeme" where
  "word_lexeme w r =
     \<lparr>rl_text = lower (raw w), rl_rank = r, rl_ids = [word_id w], rl_pos = lower (pos w)\<rparr>"

text \<open>
  First loop over a sentence: the single-word keywords. The state is \<open>lex\<close> and
  \<open>max_single_rank\<close>.
\<close>

fun single_words ::
  "(string \<rightharpoonup> real) \<Rightarrow> word_node list \<Rightarrow> lexmap \<times> real \<Rightarrow> py_error + lexmap \<times> real" where
  "single_words ranks [] st = Inr st"
| "single_words ranks (w # ws) (lexm, max_single_rank) =
     (if word_id w > 0 then
        (case ranks (root w) of
           None \<Rightarrow> single_words ranks ws (lexm, max_single_rank)
         | Some r \<Rightarrow>
             (case pos w of
                [] \<Rightarrow> Inl IndexError
              | p0 # _ \<Rightarrow>
                  if p0 = CHR ''N'' \<or> p0 = CHR ''V'' then
                    (let rl = word_lexeme w r in
                     single_words ranks ws
                       (dict_set (rl_ids rl) rl lexm, max max_single_rank (rl_rank rl)))
                  else single_words ranks ws (lexm, max_single_rank)))
      else single_words ranks ws (lexm, max_single_rank))"

text \<open>
  The body of the loop over \<open>collect_chunks(phrase)\<close>: the rank of a noun phrase, and the
  update of \<open>lex\<close>. Iterating over \<open>p = None\<close> raises \<open>TypeError\<close>, as does \<open>set.union\<close>
  without arguments.
\<close>

definition np_rank :: "ranked_lexeme list \<Rightarrow> real \<Rightarrow> real" where
  "np_rank p max_single_rank =
     sqrt (sum_list (map (\<lambda>rl. (rl_rank rl)\<^sup>2) p)) / real (length p) + max_single_rank"

definition np_lexeme :: "collab \<Rightarrow> string \<Rightarrow> ranked_lexeme list \<Rightarrow> real \<Rightarrow> ranked_lexeme" where
  "np_lexeme c txt p max_single_rank =
     \<lparr>rl_text = txt, rl_rank = np_rank p max_single_rank,
      rl_ids = set_order c (concat (map rl_ids p)), rl_pos = ''np''\<rparr>"

fun add_chunks ::
  "collab \<Rightarrow> real \<Rightarrow> (string \<times> ranked_lexeme list option) list \<Rightarrow> lexmap \<Rightarrow> py_error + lexmap" where
  "add_chunks c max_single_rank [] lexm = Inr lexm"
| "add_chunks c max_single_rank ((txt, None) # ys) lexm = Inl TypeError"
| "add_chunks c max_single_rank ((txt, Some []) # ys) lexm = Inl TypeError"
| "add_chunks c max_single_rank ((txt, Some (x # xs)) # ys) lexm =
     (let np_rl = np_lexeme c txt (x # xs) max_single_rank in
      add_chunks c max_single_rank ys (dict_set (rl_ids np_rl) np_rl lexm))"

definition flush_phrase ::
  "collab \<Rightarrow> real \<Rightarrow> ranked_lexeme list \<Rightarrow> lexmap \<Rightarrow> py_error + lexmap" where
  "flush_phrase c max_single_rank phrase lexm =
     (case collect_chunks c phrase of
        (ys, e) \<Rightarrow>
          (case add_chunks c max_single_rank ys lexm of
             Inl e' \<Rightarrow> Inl e'
           | Inr lexm' \<Rightarrow> (case e of Some e' \<Rightarrow> Inl e' | None \<Rightarrow> Inr lexm')))"

text \<open>
  Second loop over a sentence, the \<open>while tail < len(sent)\<close> loop. Its state is
  \<open>last_idx\<close>, the accumulator \<open>phrase\<close> and \<open>lex\<close>; the state at the end of the sentence
  is returned.
\<close>

fun phrase_loop ::
  "collab \<Rightarrow> (string \<rightharpoonup> real) \<Rightarrow> real \<Rightarrow> word_node list \<Rightarrow>
     int \<times> ranked_lexeme list \<times> lexmap \<Rightarrow> py_error + int \<times> ranked_lexeme list \<times> lexmap" where
  "phrase_loop c ranks max_single_rank [] st = Inr st"
| "phrase_loop c ranks max_single_rank (w # ws) (last_idx, phrase, lexm) =
     (case (if word_id w > 0 \<and> idx w - last_idx = 1 then ranks (root w) else None) of
        Some r \<Rightarrow>
          phrase_loop c ranks max_single_rank ws (idx w, phrase @ [word_lexeme w r], lexm)
      | None \<Rightarrow>
          (case flush_phrase c max_single_rank phrase lexm of
             Inl e \<Rightarrow> Inl e
           | Inr lexm' \<Rightarrow> phrase_loop c ranks max_single_rank ws (idx w, [], lexm')))"

text \<open>
  The noun phrases of one sentence: \<open>sent[0]\<close> raises \<open>IndexError\<close> on an empty sentence,
  and the accumulator left at the end of the loop is dropped (\<open>phrase\<close> is reset at the
  start of the next sentence).
\<close>

definition noun_phrases_of ::
  "collab \<Rightarrow> (string \<rightharpoonup> real) \<Rightarrow> real \<Rightarrow> word_node list \<Rightarrow> lexmap \<Rightarrow> py_error + lexmap" where
  "noun_phrases_of c ranks max_single_rank sent lexm =
     (case sent of
        [] \<Rightarrow> Inl IndexError
      | w0 # _ \<Rightarrow>
          (case phrase_loop c ranks max_single_rank sent (idx w0 - 1, [], lexm) of
             Inl e \<Rightarrow> Inl e
           | Inr (last_idx, phrase, lexm') \<Rightarrow> Inr lexm'))"

fun collect_lex ::
  "collab \<Rightarrow> (string \<rightharpoonup> real) \<Rightarrow> word_node list list \<Rightarrow> lexmap \<times> real \<Rightarrow>
     py_error + lexmap \<times> real" where
  "collect_lex c ranks [] st = Inr st"
| "collect_lex c ranks (sent # sents) st =
     (case single_words ranks sent st of
        Inl e \<Rightarrow> Inl e
      | Inr (lexm, max_single_rank) \<Rightarrow>
          (case noun_phrases_of c ranks max_single_rank sent lexm of
             Inl e \<Rightarrow> Inl e
           | Inr lexm' \<Rightarrow> collect_lex c ranks sents (lexm', max_single_rank)))"

text \<open>
  The final loop: the values of \<open>lex\<close> sorted by descending rank (\<open>sorted\<close> is stable,
  also with \<open>reverse=True\<close>), each rank divided by \<open>sum_ranks\<close>. The division of the first
  value raises \<open>ZeroDivisionError\<close> when the sum is zero; with no value there is no
  division. Ranks are reals here: the sum and the quotients are exact, where the
  floating-point sum and quotients of the code are rounded, so a statement about the
  yielded ranks is made up to a tolerance.
\<close>

definition normalize_ranks :: "lexmap \<Rightarrow> py_error + ranked_lexeme list" where
  "normalize_ranks lexm =
     (let sum_ranks = sum_list (map (\<lambda>kv. rl_rank (snd kv)) lexm);
          by_rank = sort_key (\<lambda>rl. - rl_rank rl) (map snd lexm) in
      if by_rank = [] then Inr []
      else if sum_ranks = 0 then Inl ZeroDivisionError
      else Inr (map (\<lambda>rl. rl\<lparr>rl_rank := rl_rank rl / sum_ranks\<rparr>) by_rank))"

text \<open>
  \<open>normalize_key_phrases\<close>: every exception of the function is raised before its first
  \<open>yield\<close>, so the generator either raises or yields the whole list. \<open>sents\<close> is the
  content of the file at \<open>path\<close>, one parsed sentence (\<open>meta["graf"]\<close>) per line.
\<close>

definition normalize_key_phrases ::
  "collab \<Rightarrow> word_node list list \<Rightarrow> (string \<rightharpoonup> real) \<Rightarrow> py_error + ranked_lexeme list" where
  "normalize_key_phrases c sents ranks =
     (case collect_lex c ranks sents ([], 0) of
        Inl e \<Rightarrow> Inl e
      | Inr (lexm, max_single_rank) \<Rightarrow> normalize_ranks lexm)"

text \<open>
  A run of tokens that the \<open>while\<close> loop keeps collecting when entered with \<open>last_idx\<close>:
  each token is kept (\<open>word_id > 0\<close>), its root is ranked, and its position is one more
  than the position of the token before it.
\<close>

fun collecting_run :: "(string \<rightharpoonup> real) \<Rightarrow> int \<Rightarrow> word_node list \<Rightarrow> bool" where
  "collecting_run ranks last_idx [] = True"
| "collecting_run ranks last_idx (w # ws) =
     (word_id w > 0 \<and> ranks (root w) \<noteq> None \<and> idx w - last_idx = 1 \<and>
      collecting_run ranks (idx w) ws)"

text \<open>The lexemes appended to the accumulator for the tokens of such a run.\<close>

definition run_lexemes :: "(string \<rightharpoonup> real) \<Rightarrow> word_node list \<Rightarrow> ranked_lexeme list" where
  "run_lexemes ranks run = map (\<lambda>w. word_lexeme w (the (ranks (root w)))) run"

text \<open>
  Conditions on the input of \<open>normalize_key_phrases\<close>. A sentence without rankable
  token: it is not empty and none of its tokens is both kept and ranked. A rank map as
  \<open>nx.pagerank\<close> returns it: every score is positive. \<open>positive_lexemes\<close> says the same of
  a list of lexemes.
\<close>

definition unranked_sentence :: "(string \<rightharpoonup> real) \<Rightarrow> word_node list \<Rightarrow> bool" where
  "unranked_sentence ranks sent \<longleftrightarrow>
     sent \<noteq> [] \<and> list_all (\<lambda>w. \<not> (word_id w > 0 \<and> ranks (root w) \<noteq> None)) sent"

definition positive_ranks :: "(string \<rightharpoonup> real) \<Rightarrow> bool" where
  "positive_ranks ranks \<longleftrightarrow> (\<forall>x r. ranks x = Some r \<longrightarrow> 0 < r)"

definition positive_lexemes :: "ranked_lexeme list \<Rightarrow> bool" where
  "positive_lexemes rls \<longleftrightarrow> list_all (\<lambda>rl. 0 < rl_rank rl) rls"

section \<open>Parsing: filter_quotes, parse_graf and parse_doc\<close>

record parsed_graf =
  pg_id :: string
  pg_sha1 :: string
  pg_graf :: "word_node list"

text \<open>
  \<open>str.strip()\<close> removes the ASCII whitespace characters at both ends;
  \<open>split_grafs\<close> groups the non-blank lines into paragraphs, \<open>graf\<close> being the lines
  collected so far.
\<close>

definition is_space :: "char \<Rightarrow> bool" where
  "is_space c \<longleftrightarrow>
     c \<in> set [CHR 0x09, CHR 0x0A, CHR 0x0B, CHR 0x0C, CHR 0x0D,
               CHR 0x1C, CHR 0x1D, CHR 0x1E, CHR 0x1F, CHR 0x20]"

definition strip :: "string \<Rightarrow> string" where
  "strip s = rev (dropWhile is_space (rev (dropWhile is_space s)))"

fun split_grafs_loop :: "string list \<Rightarrow> string list \<Rightarrow> string list" where
  "split_grafs_loop graf [] = (if length graf > 0 then [join_str CHR 0x0A graf] else [])"
| "split_grafs_loop graf (l # ls) =
     (let line = strip l in
      if length line < 1 then
        (if length graf > 0 then join_str CHR 0x0A graf # split_grafs_loop [] ls
         else split_grafs_loop graf ls)
      else split_grafs_loop (graf @ [line]) ls)"

definition split_grafs :: "string list \<Rightarrow> string list" where
  "split_grafs lines = split_grafs_loop [] lines"

text \<open>
  \<open>filter_quotes\<close> as \<open>parse_doc\<close> calls it, with \<open>is_email=False\<close>: only the replacement
  of quoted lines by blank lines and the split into paragraphs are executed.
\<close>

definition filter_quotes :: "string \<Rightarrow> string list" where
  "filter_quotes txt =
     split_grafs (map (\<lambda>line. case line of c # _ \<Rightarrow> (if c = CHR ''>'' then [] else line) | [] \<Rightarrow> line)
                      (split_str CHR 0x0A txt))"

text \<open>
  \<open>is_not_word\<close>: \<open>PAT_PUNCT\<close> matches a non-empty string of non-word characters,
  \<open>PAT_SPACE\<close> (matched from the start) one or more underscores, optionally followed by
  a final newline.
\<close>

definition is_word_char :: "char \<Rightarrow> bool" where
  "is_word_char c \<longleftrightarrow>
     c \<in> set ''abcdefghijklmnopqrstuvwxyzABCDEFGHIJKLMNOPQRSTUVWXYZ0123456789_''"

definition is_not_word :: "string \<Rightarrow> bool" where
  "is_not_word word \<longleftrightarrow>
     (word \<noteq> [] \<and> list_all (\<lambda>c. \<not> is_word_char c) word) \<or>
     (takeWhile (\<lambda>c. c = CHR ''_'') word \<noteq> [] \<and>
      dropWhile (\<lambda>c. c = CHR ''_'') word \<in> set [[], [CHR 0x0A]])"

text \<open>
  The word registry \<open>UNIQ_WORDS\<close>, a global dictionary, in insertion order; it starts as
  \<open>{".": 0}\<close>. \<open>get_word_id\<close> returns the identifier and the updated registry.
\<close>

type_synonym registry = "(string \<times> int) list"

definition UNIQ_WORDS :: registry where
  "UNIQ_WORDS = [(''.'', 0)]"

definition get_word_id :: "registry \<Rightarrow> string \<Rightarrow> int \<times> registry" where
  "get_word_id reg rt =
     (case map_of reg rt of
        Some i \<Rightarrow> (i, reg)
      | None \<Rightarrow> (int (length reg), reg @ [(rt, int (length reg))]))"

text \<open>
  What \<open>parse_graf\<close> takes from outside the module: the sentences of a paragraph
  (\<open>textblob.TextBlob(graf_text).sentences\<close>, each with \<open>str(sent)\<close> and \<open>sent.words\<close>),
  the part-of-speech tagger \<open>TAGGER.tag\<close>, \<open>w.singularize().lemmatize(pos)\<close>, and the
  SHA-1 hex digest of the concatenated roots. Nothing is assumed about them.
\<close>

record tagging =
  blob_sentences :: "string \<Rightarrow> (string \<times> string list) list"
  tag :: "string \<Rightarrow> (string \<times> string) list"
  singular_lemma :: "string \<Rightarrow> char \<Rightarrow> string"
  sha1_hex :: "string \<Rightarrow> string"

text \<open>
  The state of the \<open>while\<close> loop over the tagged tokens of a sentence: \<open>raw_idx\<close>, the
  locals \<open>parsed_raw\<close> and \<open>pos_family\<close>, \<open>new_base_idx\<close>, \<open>graf\<close>, the bytes given to
  \<open>digest\<close> and the registry. \<open>parsed_raw\<close> and
  \<open>pos_family\<close> are locals of \<open>parse_graf\<close> that are always assigned together; they are
  unbound until the first assignment and keep their values when neither branch assigns
  them. The registry is global: its updates survive an exception.
\<close>

record tok_state =
  ts_raw_idx :: nat
  ts_parsed :: "(string \<times> char) option"
  ts_base_idx :: int
  ts_graf :: "word_node list"
  ts_digest :: string
  ts_uniq :: registry

fun parse_tokens ::
  "tagging \<Rightarrow> string list \<Rightarrow> (string \<times> string) list \<Rightarrow> tok_state \<Rightarrow> py_error option \<times> tok_state" where
  "parse_tokens env ws [] st = (None, st)"
| "parse_tokens env ws (pos_tag # rest) st =
     (let punct = (is_not_word (fst pos_tag) \<or> snd pos_tag = ''SYM'') in
      case (if punct then Inr (Some (fst pos_tag, CHR ''.''), ts_raw_idx st)
            else if ts_raw_idx st < length ws then
              (case lower (snd pos_tag) of
                 [] \<Rightarrow> Inl IndexError
               | t0 # _ \<Rightarrow> Inr (Some (ws ! ts_raw_idx st, t0), ts_raw_idx st + 1))
            else Inr (ts_parsed st, ts_raw_idx st)) of
        Inl e \<Rightarrow> (Some e, st)
      | Inr (None, ri) \<Rightarrow> (Some UnboundLocalError, st)
      | Inr (Some (parsed_raw, pos_family), ri) \<Rightarrow>
          (let rt = (if pos_family \<in> set ''vn'' then lower (singular_lemma env parsed_raw pos_family)
                     else if pos_family \<noteq> CHR ''.'' then lower parsed_raw
                     else parsed_raw);
               kept = (pos_family \<in> set ''vnj'');
               ir = (if kept then get_word_id (ts_uniq st) rt else (0, ts_uniq st));
               word = \<lparr>word_id = fst ir, raw = parsed_raw, root = rt,
                       pos = (if punct then ''.'' else snd pos_tag),
                       keep = (if kept then 1 else 0), idx = ts_base_idx st\<rparr>
           in parse_tokens env ws rest
                \<lparr>ts_raw_idx = ri, ts_parsed = Some (parsed_raw, pos_family),
                 ts_base_idx = ts_base_idx st + 1, ts_graf = ts_graf st @ [word],
                 ts_digest = ts_digest st @ rt, ts_uniq = snd ir\<rparr>))"

text \<open>
  The loop of \<open>parse_graf\<close> over the sentences of the paragraph; \<open>markup\<close> collects the
  ts_parsed sentences. The result holds the registry also when an exception is raised.
\<close>

fun parse_sentences ::
  "tagging \<Rightarrow> string \<Rightarrow> (string \<times> string list) list \<Rightarrow> parsed_graf list \<Rightarrow>
     (string \<times> char) option \<Rightarrow> int \<Rightarrow> registry \<Rightarrow>
     (py_error + parsed_graf list \<times> int) \<times> registry" where
  "parse_sentences env doc_id [] markup loc base reg = (Inr (markup, base), reg)"
| "parse_sentences env doc_id (sent # sents) markup loc base reg =
     (case parse_tokens env (snd sent) (tag env (fst sent))
             \<lparr>ts_raw_idx = 0, ts_parsed = loc, ts_base_idx = base, ts_graf = [], ts_digest = [],
              ts_uniq = reg\<rparr> of
        (Some e, st) \<Rightarrow> (Inl e, ts_uniq st)
      | (None, st) \<Rightarrow>
          parse_sentences env doc_id sents
            (markup @ [\<lparr>pg_id = doc_id, pg_sha1 = sha1_hex env (ts_digest st), pg_graf = ts_graf st\<rparr>])
            (ts_parsed st) (ts_base_idx st) (ts_uniq st))"

definition parse_graf ::
  "tagging \<Rightarrow> registry \<Rightarrow> string \<Rightarrow> string \<Rightarrow> int \<Rightarrow>
     (py_error + parsed_graf list \<times> int) \<times> registry" where
  "parse_graf env reg doc_id graf_text base_idx =
     parse_sentences env doc_id (blob_sentences env graf_text) [] None base_idx reg"

text \<open>
  \<open>parse_doc\<close> is a generator over the document records \<open>meta\<close>, dictionaries read from
  JSON. \<open>meta["text"]\<close> is read once per document, \<open>meta["id"]\<close> once per paragraph, before
  \<open>parse_graf\<close> is called; a missing key raises \<open>KeyError\<close>, which ends the generator.
  The result is the list of yielded sentences, the exception, if any, and the registry.
\<close>

fun parse_paragraphs ::
  "tagging \<Rightarrow> (string \<rightharpoonup> string) \<Rightarrow> string list \<Rightarrow> int \<Rightarrow> registry \<Rightarrow>
     parsed_graf list \<times> py_error option \<times> registry" where
  "parse_paragraphs env meta [] base_idx reg = ([], None, reg)"
| "parse_paragraphs env meta (graf_text # rest) base_idx reg =
     (case meta ''id'' of
        None \<Rightarrow> ([], Some KeyError, reg)
      | Some doc_id \<Rightarrow>
          (case parse_graf env reg doc_id graf_text base_idx of
             (Inl e, reg') \<Rightarrow> ([], Some e, reg')
           | (Inr (grafs, nbi), reg') \<Rightarrow>
               (case parse_paragraphs env meta rest nbi reg' of
                  (ys, e, reg'') \<Rightarrow> (grafs @ ys, e, reg''))))"

fun parse_doc ::
  "tagging \<Rightarrow> registry \<Rightarrow> (string \<rightharpoonup> string) list \<Rightarrow>
     parsed_graf list \<times> py_error option \<times> registry" where
  "parse_doc env reg [] = ([], None, reg)"
| "parse_doc env reg (meta # metas) =
     (case meta ''text'' of
        None \<Rightarrow> ([], Some KeyError, reg)
      | Some txt \<Rightarrow>
          (case parse_paragraphs env meta (filter_quotes txt) 0 reg of
             (ys, Some e, reg') \<Rightarrow> (ys, Some e, reg')
           | (ys, None, reg') \<Rightarrow>
               (case parse_doc env reg' metas of
                  (zs, e, reg'') \<Rightarrow> (ys @ zs, e, reg''))))"

text \<open>
  A stand-in for the collaborators, used to run \<open>parse_doc\<close> on examples: one sentence
  per paragraph, tokens separated by single spaces and tagged \<open>NN\<close> unless they are
  punctuation, no lemmatization, a constant digest.
\<close>

definition example_tagging :: tagging where
  "example_tagging =
     \<lparr>blob_sentences = (\<lambda>t. [(t, filter (\<lambda>w. \<not> is_not_word w) (split_str CHR '' '' t))]),
      tag = (\<lambda>s. map (\<lambda>w. (w, if is_not_word w then ''.'' else ''NN'')) (split_str CHR '' '' s)),
      singular_lemma = (\<lambda>w p. w),
      sha1_hex = (\<lambda>s. ''da39a3ee'')\<rparr>"

section \<open>Properties of limit_sentences\<close>

lemma limit_sentences_loop_prefix:
  "\<exists>k. k \<le> length ps \<and>
       limit_sentences_loop wl wc ps = map yield_of (take k ps) \<and>
       wc + input_words (take k ps) \<le> max wl wc \<and>
       (k < length ps \<longrightarrow> wl < wc + input_words (take k ps) + length (sent_words (ps ! k)))"
proof (induction ps arbitrary: wc)
  case Nil
  show ?case by (simp add: input_words_def)
next
  case (Cons p ps)
  show ?case
  proof (cases "wl < wc + length (sent_words p)")
    case True
    then have "limit_sentences_loop wl wc (p # ps) = []" by simp
    with True show ?thesis
      by (intro exI[of _ 0]) (simp add: input_words_def)
  next
    case False
    from Cons.IH[of "wc + length (sent_words p)"] obtain k where k:
      "k \<le> length ps"
      "limit_sentences_loop wl (wc + length (sent_words p)) ps = map yield_of (take k ps)"
      "wc + length (sent_words p) + input_words (take k ps) \<le> max wl (wc + length (sent_words p))"
      "k < length ps \<longrightarrow>
         wl < wc + length (sent_words p) + input_words (take k ps) + length (sent_words (ps ! k))"
      by blast
    from False k show ?thesis
      by (intro exI[of _ "Suc k"]) (simp add: input_words_def yield_of_def Let_def add.assoc)
  qed
qed

lemma yielded_words_map: "yielded_words (map yield_of ps) = input_words ps"
  by (simp add: yielded_words_def input_words_def yield_of_def comp_def)

text \<open>
  Claim C7. For every stream of summary sentences and every word limit, the sentences
  yielded by \<open>limit_sentences\<close> have at most \<open>word_limit\<close> words in total, and they are
  the first \<open>k\<close> sentences of the input, in the input's order, where the sentence at
  position \<open>k\<close> (when there is one) is the first whose words would exceed the budget:
  nothing after it is yielded.
\<close>

theorem limit_sentences_budget_prefix:
  "yielded_words (limit_sentences metas word_limit) \<le> word_limit \<and>
   (\<exists>k. k \<le> length metas \<and>
        limit_sentences metas word_limit = map yield_of (take k metas) \<and>
        (k < length metas \<longrightarrow>
           word_limit < input_words (take k metas) + length (sent_words (metas ! k))))"
proof -
  from limit_sentences_loop_prefix[of metas word_limit 0] obtain k where k:
    "k \<le> length metas"
    "limit_sentences_loop word_limit 0 metas = map yield_of (take k metas)"
    "input_words (take k metas) \<le> word_limit"
    "k < length metas \<longrightarrow>
       word_limit < input_words (take k metas) + length (sent_words (metas ! k))"
    by auto
  from k(2,3) have "yielded_words (limit_sentences metas word_limit) \<le> word_limit"
    by (simp add: limit_sentences_def yielded_words_map)
  moreover from k have "\<exists>k. k \<le> length metas \<and>
        limit_sentences metas word_limit = map yield_of (take k metas) \<and>
        (k < length metas \<longrightarrow>
           word_limit < input_words (take k metas) + length (sent_words (metas ! k)))"
    unfolding limit_sentences_def by blast
  ultimately show ?thesis by blast
qed

text \<open>
  Witness for C7 on three sentences of 3, 3 and 1 words with a budget of 4 words: the
  first sentence is yielded, the second would exceed the budget, and the third, which
  would still fit, is not yielded.
\<close>

theorem limit_sentences_budget_prefix_witness:
  "limit_sentences
     [\<lparr>ss_dist = 0.9, ss_idx = 2, ss_text = ''a b c''\<rparr>,
      \<lparr>ss_dist = 0.5, ss_idx = 0, ss_text = ''d e f''\<rparr>,
      \<lparr>ss_dist = 0.1, ss_idx = 1, ss_text = ''g''\<rparr>] 4 = [([''a'', ''b'', ''c''], 2)] \<and>
   yielded_words (limit_sentences
     [\<lparr>ss_dist = 0.9, ss_idx = 2, ss_text = ''a b c''\<rparr>,
      \<lparr>ss_dist = 0.5, ss_idx = 0, ss_text = ''d e f''\<rparr>,
      \<lparr>ss_dist = 0.1, ss_idx = 1, ss_text = ''g''\<rparr>] 4) \<le> 4"
  using limit_sentences_budget_prefix[of
     "[\<lparr>ss_dist = 0.9, ss_idx = 2, ss_text = ''a b c''\<rparr>,
      \<lparr>ss_dist = 0.5, ss_idx = 0, ss_text = ''d e f''\<rparr>,
      \<lparr>ss_dist = 0.1, ss_idx = 1, ss_text = ''g''\<rparr>]" 4]
  by (simp add: limit_sentences_def sent_words_def split_str_def)

section \<open>Properties of limit_keyphrases\<close>

text \<open>
  What the loop guarantees: \<open>used\<close> counts the yields, and the test \<open>used > phrase_limit\<close>
  lets the yield with \<open>used = phrase_limit\<close> through, so up to \<open>phrase_limit + 1\<close> texts
  are yielded.
\<close>

lemma limit_keyphrases_loop_bound:
  "length (fst (limit_keyphrases_loop t n used rls)) \<le> Suc n - used"
proof (induction rls arbitrary: used)
  case Nil
  show ?case by simp
next
  case (Cons rl rls)
  show ?case
  proof (cases "rl_pos rl")
    case Nil
    then show ?thesis by simp
  next
    case (Cons c cs)
    note pos = this
    show ?thesis
    proof (cases "c = CHR ''v''")
      case True
      with pos Cons.IH[of used] show ?thesis by simp
    next
      case False
      show ?thesis
      proof (cases "used > n \<or> rl_rank rl < t")
        case True
        with pos False show ?thesis by simp
      next
        case stay: False
        obtain ys e where r: "limit_keyphrases_loop t n (used + 1) rls = (ys, e)"
          by (cases "limit_keyphrases_loop t n (used + 1) rls")
        from Cons.IH[of "used + 1"] r have "length ys \<le> Suc n - (used + 1)" by simp
        with stay pos False r show ?thesis by auto
      qed
    qed
  qed
qed

lemma limit_keyphrases_bound:
  "length (fst (limit_keyphrases lexemes phrase_limit)) \<le> phrase_limit + 1"
  using limit_keyphrases_loop_bound[of _ phrase_limit 0 lexemes]
  by (simp add: limit_keyphrases_def mean_def)

text \<open>
  Claim C1. The claim bounds the number of yielded key phrases by \<open>phrase_limit\<close>. On a
  stream of 21 lexemes of equal rank, none of them verb-led, \<open>limit_keyphrases\<close> with
  the default \<open>phrase_limit = 20\<close> yields all 21 texts: the count test is
  \<open>used > phrase_limit\<close>, evaluated before \<open>used\<close> is incremented.
\<close>

theorem limit_keyphrases_exceeds_phrase_limit:
  "limit_keyphrases (replicate 21 \<lparr>rl_text = ''key'', rl_rank = 1 / 21, rl_ids = [7], rl_pos = ''np''\<rparr>) 20
     = (replicate 21 ''key'', None)"
  by (simp add: limit_keyphrases_def mean_def eval_nat_numeral)

section \<open>Properties of get_tiles and build_graph\<close>

lemma in_concat_mapI: "x \<in> set xs \<Longrightarrow> y \<in> set (f x) \<Longrightarrow> y \<in> set (concat (map f xs))"
  by auto

lemma in_concat_mapD: "y \<in> set (concat (map f xs)) \<Longrightarrow> \<exists>x \<in> set xs. y \<in> set (f x)"
  by auto

lemma get_tiles_set:
  "(a, b) \<in> set (get_tiles graf sz) \<longleftrightarrow>
     (\<exists>i j. i < j \<and> j < length (keeps_of graf) \<and> j \<le> i + sz \<and>
            idx (keeps_of graf ! j) - idx (keeps_of graf ! i) \<le> int sz \<and>
            a = root (keeps_of graf ! i) \<and> b = root (keeps_of graf ! j))"
  (is "?L \<longleftrightarrow> ?R")
proof
  let ?ks = "keeps_of graf"
  let ?cell = "\<lambda>i j. if idx (?ks ! j) - idx (?ks ! i) \<le> int sz
                 then [(root (?ks ! i), root (?ks ! j))] else []"
  let ?inner = "\<lambda>i. concat (map (?cell i) [i + 1 ..< min (length ?ks) (i + 1 + sz)])"
  have unfold: "get_tiles graf sz = concat (map ?inner [0 ..< length ?ks - 1])"
    by (simp add: get_tiles_def Let_def)
  {
    assume ?L
    with unfold have "(a, b) \<in> set (concat (map ?inner [0 ..< length ?ks - 1]))"
      by simp
    from in_concat_mapD[OF this] obtain i where
      i: "i \<in> set [0 ..< length ?ks - 1]" and "(a, b) \<in> set (?inner i)"
      by blast
    from in_concat_mapD[OF this(2)] obtain j where
      j: "j \<in> set [i + 1 ..< min (length ?ks) (i + 1 + sz)]" and c: "(a, b) \<in> set (?cell i j)"
      by blast
    from c have "idx (?ks ! j) - idx (?ks ! i) \<le> int sz \<and> a = root (?ks ! i) \<and> b = root (?ks ! j)"
      by (simp split: if_splits)
    moreover from j have "i < j \<and> j < length ?ks \<and> j \<le> i + sz"
      by simp
    ultimately show ?R by blast
  }
  {
    assume ?R
    then obtain i j where ij:
      "i < j" "j < length ?ks" "j \<le> i + sz"
      "idx (?ks ! j) - idx (?ks ! i) \<le> int sz"
      "a = root (?ks ! i)" "b = root (?ks ! j)"
      by blast
    from ij have j: "j \<in> set [i + 1 ..< min (length ?ks) (i + 1 + sz)]"
      by simp
    from ij have c: "(a, b) \<in> set (?cell i j)"
      by simp
    from ij have i: "i \<in> set [0 ..< length ?ks - 1]"
      by simp
    have "(a, b) \<in> set (?inner i)"
      by (rule in_concat_mapI[where f = "?cell i" and x = j, OF j c])
    then have "(a, b) \<in> set (concat (map ?inner [0 ..< length ?ks - 1]))"
      by (rule in_concat_mapI[where f = ?inner and x = i, OF i])
    with unfold show ?L
      by simp
  }
qed

text \<open>
  Claim C5. The kept tokens are the tokens of the sentence with \<open>word_id > 0\<close>, in
  order. \<open>get_tiles\<close> yields a pair of roots exactly for the kept tokens at slots
  \<open>i < j\<close> of that list with \<open>j\<close> among the next \<open>size\<close> slots after \<open>i\<close> and a position
  gap \<open>idx j - idx i \<le> size\<close>. For a sentence with kept tokens at positions 0, 1 and 4,
  tokens with \<open>word_id = 0\<close> at positions 2 and 3, and \<open>size = 3\<close>, the yielded pairs are
  those of positions (0, 1) and (1, 4); the pair of positions (0, 4) is not yielded, and
  no pair has a token that is not kept.
\<close>

theorem get_tiles_window:
  "((a, b) \<in> set (get_tiles graf sz) \<longleftrightarrow>
     (\<exists>i j. i < j \<and> j < length (filter (\<lambda>w. 0 < word_id w) graf) \<and> j \<le> i + sz \<and>
            idx (filter (\<lambda>w. 0 < word_id w) graf ! j)
              - idx (filter (\<lambda>w. 0 < word_id w) graf ! i) \<le> int sz \<and>
            a = root (filter (\<lambda>w. 0 < word_id w) graf ! i) \<and>
            b = root (filter (\<lambda>w. 0 < word_id w) graf ! j))) \<and>
   get_tiles
     [\<lparr>word_id = 1, raw = x0, root = r0, pos = p0, keep = 1, idx = 0\<rparr>,
      \<lparr>word_id = 2, raw = x1, root = r1, pos = p1, keep = 1, idx = 1\<rparr>,
      \<lparr>word_id = 0, raw = x2, root = r2, pos = p2, keep = 0, idx = 2\<rparr>,
      \<lparr>word_id = 0, raw = x3, root = r3, pos = p3, keep = 0, idx = 3\<rparr>,
      \<lparr>word_id = 3, raw = x4, root = r4, pos = p4, keep = 1, idx = 4\<rparr>] 3
     = [(r0, r1), (r1, r4)]"
proof
  show "(a, b) \<in> set (get_tiles graf sz) \<longleftrightarrow>
     (\<exists>i j. i < j \<and> j < length (filter (\<lambda>w. 0 < word_id w) graf) \<and> j \<le> i + sz \<and>
            idx (filter (\<lambda>w. 0 < word_id w) graf ! j)
              - idx (filter (\<lambda>w. 0 < word_id w) graf ! i) \<le> int sz \<and>
            a = root (filter (\<lambda>w. 0 < word_id w) graf ! i) \<and>
            b = root (filter (\<lambda>w. 0 < word_id w) graf ! j))"
    using get_tiles_set[of a b graf sz] unfolding keeps_of_def .
next
  show "get_tiles
     [\<lparr>word_id = 1, raw = x0, root = r0, pos = p0, keep = 1, idx = 0\<rparr>,
      \<lparr>word_id = 2, raw = x1, root = r1, pos = p1, keep = 1, idx = 1\<rparr>,
      \<lparr>word_id = 0, raw = x2, root = r2, pos = p2, keep = 0, idx = 2\<rparr>,
      \<lparr>word_id = 0, raw = x3, root = r3, pos = p3, keep = 0, idx = 3\<rparr>,
      \<lparr>word_id = 3, raw = x4, root = r4, pos = p4, keep = 1, idx = 4\<rparr>] 3
     = [(r0, r1), (r1, r4)]"
    by (simp add: get_tiles_def keeps_of_def eval_nat_numeral)
qed

text \<open>The weight of an edge is the number of times its pair was yielded by the tiler.\<close>

lemma foldl_add_pair_edges:
  "g_edges (foldl add_pair g ps) p =
     (case g_edges g p of
        None \<Rightarrow> if count_list ps p = 0 then None else Some (real (count_list ps p))
      | Some w \<Rightarrow> Some (w + real (count_list ps p)))"
proof (induction ps arbitrary: g)
  case Nil
  show ?case by (simp split: option.splits)
next
  case (Cons q ps)
  show ?case
    by (simp add: Cons.IH) (auto simp: add_pair_def Let_def split: option.splits)
qed

lemma foldl_add_sentence:
  "foldl add_sentence g grafs = foldl add_pair g (all_tiles grafs)"
  by (induction grafs arbitrary: g) (simp_all add: all_tiles_def add_sentence_def)

lemma build_graph_edges:
  "g_edges (build_graph grafs) p =
     (if count_list (all_tiles grafs) p = 0 then None
      else Some (real (count_list (all_tiles grafs) p)))"
  by (simp add: build_graph_def foldl_add_sentence foldl_add_pair_edges empty_graph_def)

lemma all_tiles_set:
  "p \<in> set (all_tiles grafs) \<longleftrightarrow> (\<exists>graf \<in> set grafs. p \<in> set (get_tiles graf 3))"
  by (auto simp: all_tiles_def)

text \<open>
  The graph has an edge exactly for the pairs of roots of kept tokens in one window.
\<close>

lemma build_graph_edge_iff:
  "g_edges (build_graph grafs) (a, b) \<noteq> None \<longleftrightarrow>
      (\<exists>graf \<in> set grafs. \<exists>i j.
          i < j \<and> j < length (filter (\<lambda>w. 0 < word_id w) graf) \<and> j \<le> i + 3 \<and>
          idx (filter (\<lambda>w. 0 < word_id w) graf ! j)
            - idx (filter (\<lambda>w. 0 < word_id w) graf ! i) \<le> 3 \<and>
          a = root (filter (\<lambda>w. 0 < word_id w) graf ! i) \<and>
          b = root (filter (\<lambda>w. 0 < word_id w) graf ! j))"
proof -
  have "g_edges (build_graph grafs) (a, b) \<noteq> None \<longleftrightarrow> (a, b) \<in> set (all_tiles grafs)"
    by (simp add: build_graph_edges count_list_0_iff)
  also have "\<dots> \<longleftrightarrow> (\<exists>graf \<in> set grafs. (a, b) \<in> set (get_tiles graf 3))"
    by (rule all_tiles_set)
  also have "\<dots> \<longleftrightarrow>
      (\<exists>graf \<in> set grafs. \<exists>i j.
          i < j \<and> j < length (filter (\<lambda>w. 0 < word_id w) graf) \<and> j \<le> i + 3 \<and>
          idx (filter (\<lambda>w. 0 < word_id w) graf ! j)
            - idx (filter (\<lambda>w. 0 < word_id w) graf ! i) \<le> 3 \<and>
          a = root (filter (\<lambda>w. 0 < word_id w) graf ! i) \<and>
          b = root (filter (\<lambda>w. 0 < word_id w) graf ! j))"
    unfolding get_tiles_set keeps_of_def by simp
  finally show ?thesis .
qed

text \<open>
  Claim C2, counterexample. A sentence in which the same root is kept twice within the
  window (the tokens "dog" at positions 0 and 1) gives the graph the edge from "dog" to
  "dog": the tiler excludes equal slots, not equal roots.
\<close>

theorem build_graph_self_loop:
  "g_edges (build_graph
     [[\<lparr>word_id = 1, raw = ''dog'', root = ''dog'', pos = ''NN'', keep = 1, idx = 0\<rparr>,
       \<lparr>word_id = 1, raw = ''dog'', root = ''dog'', pos = ''NN'', keep = 1, idx = 1\<rparr>]])
     (''dog'', ''dog'') = Some 1"
  by (simp add: build_graph_def add_sentence_def get_tiles_def keeps_of_def add_pair_def
      empty_graph_def eval_nat_numeral)

text \<open>
  Claim C2, amended. Every edge of the graph built by \<open>build_graph\<close> has weight at least
  1, and the graph has an edge from \<open>a\<close> to \<open>b\<close> exactly when some sentence has kept
  tokens at two different slots \<open>i < j\<close> of its kept list, \<open>j\<close> among the next 3 slots and
  at position gap at most 3, with roots \<open>a\<close> and \<open>b\<close>. In particular the graph has a
  self-loop at a root \<open>c\<close> exactly when a sentence keeps that root at two such slots.
\<close>

theorem build_graph_weights:
  "(g_edges (build_graph grafs) (a, b) = Some w \<longrightarrow> 1 \<le> w) \<and>
   (g_edges (build_graph grafs) (a, b) \<noteq> None \<longleftrightarrow>
      (\<exists>graf \<in> set grafs. \<exists>i j.
          i < j \<and> j < length (filter (\<lambda>w. 0 < word_id w) graf) \<and> j \<le> i + 3 \<and>
          idx (filter (\<lambda>w. 0 < word_id w) graf ! j)
            - idx (filter (\<lambda>w. 0 < word_id w) graf ! i) \<le> 3 \<and>
          a = root (filter (\<lambda>w. 0 < word_id w) graf ! i) \<and>
          b = root (filter (\<lambda>w. 0 < word_id w) graf ! j))) \<and>
   (g_edges (build_graph grafs) (c, c) \<noteq> None \<longleftrightarrow>
      (\<exists>graf \<in> set grafs. \<exists>i j.
          i < j \<and> j < length (filter (\<lambda>w. 0 < word_id w) graf) \<and> j \<le> i + 3 \<and>
          idx (filter (\<lambda>w. 0 < word_id w) graf ! j)
            - idx (filter (\<lambda>w. 0 < word_id w) graf ! i) \<le> 3 \<and>
          c = root (filter (\<lambda>w. 0 < word_id w) graf ! i) \<and>
          c = root (filter (\<lambda>w. 0 < word_id w) graf ! j)))"
proof (intro conjI impI)
  assume "g_edges (build_graph grafs) (a, b) = Some w"
  then have "count_list (all_tiles grafs) (a, b) \<noteq> 0"
    and "w = real (count_list (all_tiles grafs) (a, b))"
    by (auto simp: build_graph_edges split: if_splits)
  then show "1 \<le> w" by simp
next
  show "g_edges (build_graph grafs) (a, b) \<noteq> None \<longleftrightarrow>
      (\<exists>graf \<in> set grafs. \<exists>i j.
          i < j \<and> j < length (filter (\<lambda>w. 0 < word_id w) graf) \<and> j \<le> i + 3 \<and>
          idx (filter (\<lambda>w. 0 < word_id w) graf ! j)
            - idx (filter (\<lambda>w. 0 < word_id w) graf ! i) \<le> 3 \<and>
          a = root (filter (\<lambda>w. 0 < word_id w) graf ! i) \<and>
          b = root (filter (\<lambda>w. 0 < word_id w) graf ! j))"
    by (rule build_graph_edge_iff)
next
  show "g_edges (build_graph grafs) (c, c) \<noteq> None \<longleftrightarrow>
      (\<exists>graf \<in> set grafs. \<exists>i j.
          i < j \<and> j < length (filter (\<lambda>w. 0 < word_id w) graf) \<and> j \<le> i + 3 \<and>
          idx (filter (\<lambda>w. 0 < word_id w) graf ! j)
            - idx (filter (\<lambda>w. 0 < word_id w) graf ! i) \<le> 3 \<and>
          c = root (filter (\<lambda>w. 0 < word_id w) graf ! i) \<and>
          c = root (filter (\<lambda>w. 0 < word_id w) graf ! j))"
    by (rule build_graph_edge_iff)
qed

lemmas graph_defs = build_graph_def add_sentence_def get_tiles_def keeps_of_def add_pair_def
  empty_graph_def

text \<open>
  Witness for C2: in "dog a b c dog" the root "dog" is kept twice, at slots 0 and 4,
  which are not in one window: the edge from "dog" to "a" has weight 1 and there is no
  self-loop.
\<close>

theorem build_graph_weights_witness:
  "g_edges (build_graph
     [[\<lparr>word_id = 1, raw = ''dog'', root = ''dog'', pos = ''NN'', keep = 1, idx = 0\<rparr>,
       \<lparr>word_id = 2, raw = ''a'', root = ''a'', pos = ''NN'', keep = 1, idx = 1\<rparr>,
       \<lparr>word_id = 3, raw = ''b'', root = ''b'', pos = ''NN'', keep = 1, idx = 2\<rparr>,
       \<lparr>word_id = 4, raw = ''c'', root = ''c'', pos = ''NN'', keep = 1, idx = 3\<rparr>,
       \<lparr>word_id = 1, raw = ''dog'', root = ''dog'', pos = ''NN'', keep = 1, idx = 4\<rparr>]])
     (''dog'', ''a'') = Some 1 \<and>
   (1::real) \<le> 1 \<and>
   g_edges (build_graph
     [[\<lparr>word_id = 1, raw = ''dog'', root = ''dog'', pos = ''NN'', keep = 1, idx = 0\<rparr>,
       \<lparr>word_id = 2, raw = ''a'', root = ''a'', pos = ''NN'', keep = 1, idx = 1\<rparr>,
       \<lparr>word_id = 3, raw = ''b'', root = ''b'', pos = ''NN'', keep = 1, idx = 2\<rparr>,
       \<lparr>word_id = 4, raw = ''c'', root = ''c'', pos = ''NN'', keep = 1, idx = 3\<rparr>,
       \<lparr>word_id = 1, raw = ''dog'', root = ''dog'', pos = ''NN'', keep = 1, idx = 4\<rparr>]])
     (''dog'', ''dog'') = None"
  using build_graph_weights[of
     "[[\<lparr>word_id = 1, raw = ''dog'', root = ''dog'', pos = ''NN'', keep = 1, idx = 0\<rparr>,
       \<lparr>word_id = 2, raw = ''a'', root = ''a'', pos = ''NN'', keep = 1, idx = 1\<rparr>,
       \<lparr>word_id = 3, raw = ''b'', root = ''b'', pos = ''NN'', keep = 1, idx = 2\<rparr>,
       \<lparr>word_id = 4, raw = ''c'', root = ''c'', pos = ''NN'', keep = 1, idx = 3\<rparr>,
       \<lparr>word_id = 1, raw = ''dog'', root = ''dog'', pos = ''NN'', keep = 1, idx = 4\<rparr>]]"
     "''dog''" "''a''" 1 "''dog''"]
  by (simp add: graph_defs eval_nat_numeral)

section \<open>Properties of normalize_key_phrases\<close>

text \<open>
  Evaluation of the model on concrete sentences unfolds these definitions; \<open>sqrt_quarter\<close>
  is the one square root needed.
\<close>

lemma sqrt_quarter: "sqrt ((3/10)\<^sup>2 + (2/5)\<^sup>2) = 1/2"
proof -
  have "(3/10)\<^sup>2 + (2/5)\<^sup>2 = ((1/2)::real)\<^sup>2"
    by (simp add: power2_eq_square)
  then have "sqrt ((3/10)\<^sup>2 + (2/5)\<^sup>2) = \<bar>1/2 :: real\<bar>"
    by (simp only: real_sqrt_abs)
  then show ?thesis by simp
qed

lemma map_of_dict_set: "map_of (dict_set k v kvs) k = Some v"
  by (induction kvs) auto

lemmas nkp_defs = normalize_key_phrases_def noun_phrases_of_def flush_phrase_def
  collect_chunks_def find_chunk_def find_chunk_sub_def word_lexeme_def np_lexeme_def
  lower_def lower_char_def split_str_def normalize_ranks_def

text \<open>
  Claim C3. The claim says that a phrase returned by the chunker that cannot be aligned to
  the run is dropped without an error. Here the run is "anti-virus software" and the
  chunker returns the phrase "anti virus software", which matches at no start position:
  \<open>find_chunk\<close> returns \<open>None\<close>, and \<open>normalize_key_phrases\<close> raises \<open>TypeError\<close> when
  it iterates over that result.
\<close>

theorem unaligned_chunk_raises:
  "normalize_key_phrases
     \<lparr>noun_phrases = (\<lambda>t. if t = ''anti-virus software'' then [''anti virus software''] else []),
      set_order = (\<lambda>xs. sort (remdups xs))\<rparr>
     [[\<lparr>word_id = 1, raw = ''Anti-virus'', root = ''anti-virus'', pos = ''JJ'', keep = 1, idx = 0\<rparr>,
       \<lparr>word_id = 2, raw = ''software'', root = ''software'', pos = ''NN'', keep = 1, idx = 1\<rparr>,
       \<lparr>word_id = 0, raw = ''.'', root = ''.'', pos = ''.'', keep = 0, idx = 2\<rparr>]]
     [''anti-virus'' \<mapsto> 2/5, ''software'' \<mapsto> 3/5] = Inl TypeError"
  by (simp add: nkp_defs)

text \<open>
  When the chunker's phrase matches up to the end of the run and is longer than what is
  left of it, \<open>find_chunk_sub\<close> reads past the end of the run: \<open>IndexError\<close>.
\<close>

lemma partly_aligned_chunk_raises:
  "normalize_key_phrases
     \<lparr>noun_phrases = (\<lambda>t. if t = ''anti-virus software'' then [''software .''] else []),
      set_order = (\<lambda>xs. sort (remdups xs))\<rparr>
     [[\<lparr>word_id = 1, raw = ''Anti-virus'', root = ''anti-virus'', pos = ''JJ'', keep = 1, idx = 0\<rparr>,
       \<lparr>word_id = 2, raw = ''software'', root = ''software'', pos = ''NN'', keep = 1, idx = 1\<rparr>,
       \<lparr>word_id = 0, raw = ''.'', root = ''.'', pos = ''.'', keep = 0, idx = 2\<rparr>]]
     [''anti-virus'' \<mapsto> 2/5, ''software'' \<mapsto> 3/5] = Inl IndexError"
  by (simp add: nkp_defs)

text \<open>
  Claim C4, counterexample. A corpus of one sentence without any kept token gives an
  empty lexeme map; \<open>normalize_key_phrases\<close> yields nothing and raises nothing.
\<close>

theorem empty_lexmap_no_error:
  "normalize_key_phrases
     \<lparr>noun_phrases = (\<lambda>t. []), set_order = (\<lambda>xs. sort (remdups xs))\<rparr>
     [[\<lparr>word_id = 0, raw = ''The'', root = ''the'', pos = ''DT'', keep = 0, idx = 0\<rparr>,
       \<lparr>word_id = 0, raw = ''.'', root = ''.'', pos = ''.'', keep = 0, idx = 1\<rparr>]]
     [''dog'' \<mapsto> 1] = Inr []"
  by (simp add: nkp_defs)

text \<open>
  On sentences without rankable token both passes leave the lexeme map as it is; an
  empty sentence makes the noun-phrase pass raise \<open>IndexError\<close> at \<open>sent[0]\<close>.
\<close>

lemma single_words_unranked:
  "list_all (\<lambda>w. \<not> (word_id w > 0 \<and> ranks (root w) \<noteq> None)) ws \<Longrightarrow>
   single_words ranks ws st = Inr st"
proof (induction ws)
  case Nil
  show ?case by simp
next
  case (Cons w ws)
  obtain lexm m where st: "st = (lexm, m)" by (cases st)
  from Cons show ?case unfolding st by auto
qed

lemma flush_empty: "flush_phrase c m [] lexm = Inr lexm"
  by (simp add: flush_phrase_def collect_chunks_def)

lemma phrase_loop_unranked:
  "list_all (\<lambda>w. \<not> (word_id w > 0 \<and> ranks (root w) \<noteq> None)) ws \<Longrightarrow>
   \<exists>l. phrase_loop c ranks m ws (last_idx, [], lexm) = Inr (l, [], lexm)"
proof (induction ws arbitrary: last_idx)
  case Nil
  show ?case by simp
next
  case (Cons w ws)
  from Cons.prems have w: "\<not> (word_id w > 0 \<and> ranks (root w) \<noteq> None)"
    and rest: "list_all (\<lambda>w. \<not> (word_id w > 0 \<and> ranks (root w) \<noteq> None)) ws"
    by simp_all
  from w have "(if word_id w > 0 \<and> idx w - last_idx = 1 then ranks (root w) else None) = None"
    by auto
  with Cons.IH[OF rest, of "idx w"] show ?case
    by (simp add: flush_empty)
qed

lemma noun_phrases_of_unranked:
  "unranked_sentence ranks sent \<Longrightarrow> noun_phrases_of c ranks m sent lexm = Inr lexm"
proof -
  assume u: "unranked_sentence ranks sent"
  then obtain w0 ws where s: "sent = w0 # ws"
    by (cases sent) (auto simp: unranked_sentence_def)
  from u have "list_all (\<lambda>w. \<not> (word_id w > 0 \<and> ranks (root w) \<noteq> None)) sent"
    by (simp add: unranked_sentence_def)
  from phrase_loop_unranked[OF this, of c m "idx w0 - 1" lexm] obtain l where
    "phrase_loop c ranks m sent (idx w0 - 1, [], lexm) = Inr (l, [], lexm)" by blast
  then show ?thesis
    unfolding s noun_phrases_of_def by (simp del: phrase_loop.simps)
qed

lemma collect_lex_unranked:
  "list_all (unranked_sentence ranks) sents \<Longrightarrow> collect_lex c ranks sents st = Inr st"
proof (induction sents)
  case Nil
  show ?case by simp
next
  case (Cons sent sents)
  obtain lexm m where st: "st = (lexm, m)" by (cases st)
  from Cons.prems have u: "unranked_sentence ranks sent"
    and rest: "list_all (unranked_sentence ranks) sents" by simp_all
  from u have "single_words ranks sent (lexm, m) = Inr (lexm, m)"
    by (simp add: single_words_unranked unranked_sentence_def)
  with noun_phrases_of_unranked[OF u] Cons.IH[OF rest] show ?case
    unfolding st by simp
qed

lemma empty_sentence_raises: "normalize_key_phrases c ([] # sents) ranks = Inl IndexError"
  by (simp add: normalize_key_phrases_def noun_phrases_of_def)

text \<open>
  Claim C4, amended. Whenever the collection pass ends with an empty lexeme map, the
  normalization step raises nothing and \<open>normalize_key_phrases\<close> yields nothing: with no
  lexeme the division by the sum of the ranks is never executed. This is the case for
  every corpus of non-empty sentences in which no token is both kept and ranked: there
  the collection pass ends normally with the empty map.
\<close>

theorem empty_lexmap_yields_nothing:
  "(collect_lex c ranks sents ([], 0) = Inr ([], m) \<longrightarrow>
      normalize_key_phrases c sents ranks = Inr []) \<and>
   (list_all (unranked_sentence ranks) sents \<longrightarrow>
      collect_lex c ranks sents ([], 0) = Inr ([], 0) \<and>
      normalize_key_phrases c sents ranks = Inr [])"
  by (simp add: normalize_key_phrases_def normalize_ranks_def collect_lex_unranked)

theorem empty_lexmap_yields_nothing_witness:
  "unranked_sentence Map.empty
     [\<lparr>word_id = 3, raw = ''dogs'', root = ''dog'', pos = ''NNS'', keep = 1, idx = 0\<rparr>] \<and>
   collect_lex \<lparr>noun_phrases = (\<lambda>t. []), set_order = (\<lambda>xs. sort (remdups xs))\<rparr> Map.empty
     [[\<lparr>word_id = 3, raw = ''dogs'', root = ''dog'', pos = ''NNS'', keep = 1, idx = 0\<rparr>]] ([], 0)
     = Inr ([], 0) \<and>
   normalize_key_phrases \<lparr>noun_phrases = (\<lambda>t. []), set_order = (\<lambda>xs. sort (remdups xs))\<rparr>
     [[\<lparr>word_id = 3, raw = ''dogs'', root = ''dog'', pos = ''NNS'', keep = 1, idx = 0\<rparr>]]
     Map.empty = Inr []"
  using empty_lexmap_yields_nothing[of
     "\<lparr>noun_phrases = (\<lambda>t. []), set_order = (\<lambda>xs. sort (remdups xs))\<rparr>" Map.empty
     "[[\<lparr>word_id = 3, raw = ''dogs'', root = ''dog'', pos = ''NNS'', keep = 1, idx = 0\<rparr>]]" 0]
  by (simp add: unranked_sentence_def)

text \<open>
  Claim C6. The rank stored for an emitted phrase with members \<open>p\<close> (any non-empty list
  of lexemes that the chunk loop receives) is the square root of the sum of the squared
  member ranks, divided by the number of members, plus \<open>max_single_rank\<close>. For the
  sentence "Big red, dogs" with ranks 0.3, 0.4 and 0.5 the maximal single-word rank is
  0.5 (the noun "dogs") and the phrase "big red" is stored with rank 0.75.
\<close>

theorem phrase_rank_formula:
  "(p \<noteq> [] \<longrightarrow>
     (\<exists>lexm'. add_chunks c max_single_rank [(txt, Some p)] lexm = Inr lexm' \<and>
        map_of lexm' (set_order c (concat (map rl_ids p))) =
          Some \<lparr>rl_text = txt,
                rl_rank = sqrt (sum_list (map (\<lambda>rl. (rl_rank rl)\<^sup>2) p)) / real (length p)
                            + max_single_rank,
                rl_ids = set_order c (concat (map rl_ids p)), rl_pos = ''np''\<rparr>)) \<and>
   collect_lex
     \<lparr>noun_phrases = (\<lambda>t. []), set_order = (\<lambda>xs. sort (remdups xs))\<rparr>
     [''big'' \<mapsto> 3/10, ''red'' \<mapsto> 4/10, ''dog'' \<mapsto> 1/2]
     [[\<lparr>word_id = 1, raw = ''Big'', root = ''big'', pos = ''JJ'', keep = 1, idx = 0\<rparr>,
       \<lparr>word_id = 2, raw = ''red'', root = ''red'', pos = ''JJ'', keep = 1, idx = 1\<rparr>,
       \<lparr>word_id = 0, raw = '','', root = '','', pos = ''.'', keep = 0, idx = 2\<rparr>,
       \<lparr>word_id = 3, raw = ''dogs'', root = ''dog'', pos = ''NNS'', keep = 1, idx = 3\<rparr>]]
     ([], 0) =
   Inr ([([3], \<lparr>rl_text = ''dogs'', rl_rank = 1/2, rl_ids = [3], rl_pos = ''nns''\<rparr>),
         ([1, 2], \<lparr>rl_text = ''big red'', rl_rank = 3/4, rl_ids = [1, 2], rl_pos = ''np''\<rparr>)],
        1/2)"
proof (intro conjI impI)
  assume "p \<noteq> []"
  then obtain x xs where p: "p = x # xs" by (cases p) auto
  show "\<exists>lexm'. add_chunks c max_single_rank [(txt, Some p)] lexm = Inr lexm' \<and>
        map_of lexm' (set_order c (concat (map rl_ids p))) =
          Some \<lparr>rl_text = txt,
                rl_rank = sqrt (sum_list (map (\<lambda>rl. (rl_rank rl)\<^sup>2) p)) / real (length p)
                            + max_single_rank,
                rl_ids = set_order c (concat (map rl_ids p)), rl_pos = ''np''\<rparr>"
    unfolding p by (simp add: np_lexeme_def np_rank_def map_of_dict_set Let_def)
next
  show "collect_lex
     \<lparr>noun_phrases = (\<lambda>t. []), set_order = (\<lambda>xs. sort (remdups xs))\<rparr>
     [''big'' \<mapsto> 3/10, ''red'' \<mapsto> 4/10, ''dog'' \<mapsto> 1/2]
     [[\<lparr>word_id = 1, raw = ''Big'', root = ''big'', pos = ''JJ'', keep = 1, idx = 0\<rparr>,
       \<lparr>word_id = 2, raw = ''red'', root = ''red'', pos = ''JJ'', keep = 1, idx = 1\<rparr>,
       \<lparr>word_id = 0, raw = '','', root = '','', pos = ''.'', keep = 0, idx = 2\<rparr>,
       \<lparr>word_id = 3, raw = ''dogs'', root = ''dog'', pos = ''NNS'', keep = 1, idx = 3\<rparr>]]
     ([], 0) =
   Inr ([([3], \<lparr>rl_text = ''dogs'', rl_rank = 1/2, rl_ids = [3], rl_pos = ''nns''\<rparr>),
         ([1, 2], \<lparr>rl_text = ''big red'', rl_rank = 3/4, rl_ids = [1, 2], rl_pos = ''np''\<rparr>)],
        1/2)"
    by (simp add: nkp_defs np_rank_def sqrt_quarter)
qed

theorem phrase_rank_formula_witness:
  "[\<lparr>rl_text = ''big'', rl_rank = 3/10, rl_ids = [1], rl_pos = ''jj''\<rparr>,
    \<lparr>rl_text = ''red'', rl_rank = 4/10, rl_ids = [2], rl_pos = ''jj''\<rparr>] \<noteq> [] \<and>
   add_chunks \<lparr>noun_phrases = (\<lambda>t. []), set_order = (\<lambda>xs. sort (remdups xs))\<rparr> (1/2)
     [(''big red'',
       Some [\<lparr>rl_text = ''big'', rl_rank = 3/10, rl_ids = [1], rl_pos = ''jj''\<rparr>,
             \<lparr>rl_text = ''red'', rl_rank = 4/10, rl_ids = [2], rl_pos = ''jj''\<rparr>])] [] =
   Inr [([1, 2], \<lparr>rl_text = ''big red'', rl_rank = 3/4, rl_ids = [1, 2], rl_pos = ''np''\<rparr>)]"
  using phrase_rank_formula[of
     "[\<lparr>rl_text = ''big'', rl_rank = 3/10, rl_ids = [1], rl_pos = ''jj''\<rparr>,
       \<lparr>rl_text = ''red'', rl_rank = 4/10, rl_ids = [2], rl_pos = ''jj''\<rparr>]"
     "\<lparr>noun_phrases = (\<lambda>t. []), set_order = (\<lambda>xs. sort (remdups xs))\<rparr>" "1/2" "''big red''" "[]"]
  by (simp add: np_lexeme_def np_rank_def sqrt_quarter)

text \<open>
  The sum of a list of reals does not change under the stable sort, and dividing every
  rank by \<open>s\<close> divides the sum by \<open>s\<close>.
\<close>

lemma sum_list_insort_key:
  "sum_list (map f (insort_key g x xs)) = f x + sum_list (map f xs)"
  for f :: "'a \<Rightarrow> real"
  by (induction xs) simp_all

lemma sum_list_sort_key:
  "sum_list (map f (sort_key g xs)) = sum_list (map f xs)"
  for f :: "'a \<Rightarrow> real"
  by (induction xs) (simp_all add: sum_list_insort_key)

lemma sum_list_normalized:
  "sum_list (map rl_rank (map (\<lambda>rl. rl\<lparr>rl_rank := rl_rank rl / s\<rparr>) ys))
     = sum_list (map rl_rank ys) / s"
  by (induction ys) (simp_all add: add_divide_distrib)

lemma normalize_ranks_sum:
  assumes "lexm \<noteq> []" and "sum_list (map (\<lambda>kv. rl_rank (snd kv)) lexm) \<noteq> 0"
  shows "\<exists>ys. normalize_ranks lexm = Inr ys \<and> length ys = length lexm \<and>
              sum_list (map rl_rank ys) = 1"
proof -
  let ?s = "sum_list (map (\<lambda>kv. rl_rank (snd kv)) lexm)"
  let ?by_rank = "sort_key (\<lambda>rl. - rl_rank rl) (map snd lexm)"
  let ?ys = "map (\<lambda>rl. rl\<lparr>rl_rank := rl_rank rl / ?s\<rparr>) ?by_rank"
  from assms(1) have "length ?by_rank \<noteq> 0" by simp
  then have ne: "?by_rank \<noteq> []" by (simp only: length_0_conv not_False_eq_True)
  with assms(2) have "normalize_ranks lexm = Inr ?ys"
    by (simp add: normalize_ranks_def Let_def)
  moreover have "length ?ys = length lexm" by simp
  moreover have "sum_list (map rl_rank ?by_rank) = ?s"
    by (simp add: sum_list_sort_key comp_def)
  with assms(2) have "sum_list (map rl_rank ?ys) = 1"
    by (simp only: sum_list_normalized) simp
  ultimately show ?thesis by blast
qed

text \<open>
  With positive scores in the rank map every collected lexeme has a positive rank: a
  single word has the score of its root, the members of a phrase are lexemes of the run
  (\<open>find_chunk\<close> returns a slice of it), and the rank of a phrase is a positive quotient
  plus the non-negative \<open>max_single_rank\<close>. So the sum of the collected ranks is
  positive.
\<close>

lemma positive_lexemes_simps [simp]:
  "positive_lexemes []"
  "positive_lexemes (rl # rls) \<longleftrightarrow> 0 < rl_rank rl \<and> positive_lexemes rls"
  "positive_lexemes (xs @ ys) \<longleftrightarrow> positive_lexemes xs \<and> positive_lexemes ys"
  by (simp_all add: positive_lexemes_def)

lemma positive_lexemes_subset:
  "positive_lexemes rls \<Longrightarrow> set p \<subseteq> set rls \<Longrightarrow> positive_lexemes p"
  by (auto simp: positive_lexemes_def list_all_iff)

lemma positive_dict_set:
  "positive_lexemes (map snd lexm) \<Longrightarrow> 0 < rl_rank v \<Longrightarrow>
   positive_lexemes (map snd (dict_set k v lexm))"
  by (induction lexm) auto

lemma single_words_positive:
  "positive_ranks ranks \<Longrightarrow> positive_lexemes (map snd lexm) \<Longrightarrow> 0 \<le> m \<Longrightarrow>
   single_words ranks ws (lexm, m) = Inr (lexm', m') \<Longrightarrow>
   positive_lexemes (map snd lexm') \<and> 0 \<le> m'"
proof (induction ws arbitrary: lexm m)
  case Nil
  then show ?case by simp
next
  case (Cons w ws)
  show ?case
  proof (cases "word_id w > 0")
    case False
    with Cons.prems Cons.IH[of lexm m] show ?thesis by simp
  next
    case True
    note kept = this
    show ?thesis
    proof (cases "ranks (root w)")
      case None
      with kept Cons.prems Cons.IH[of lexm m] show ?thesis by simp
    next
      case (Some r)
      with Cons.prems(1) have r: "0 < r" by (simp add: positive_ranks_def)
      show ?thesis
      proof (cases "pos w")
        case Nil
        with kept Some Cons.prems show ?thesis by simp
      next
        case (Cons p0 ps)
        show ?thesis
        proof (cases "p0 = CHR ''N'' \<or> p0 = CHR ''V''")
          case False
          with kept Some Cons Cons.prems Cons.IH[of lexm m] show ?thesis by simp
        next
          case nv: True
          let ?rl = "word_lexeme w r"
          have rk: "rl_rank ?rl = r" by (simp add: word_lexeme_def)
          from Cons.prems(2) r rk have 1: "positive_lexemes (map snd (dict_set (rl_ids ?rl) ?rl lexm))"
            by (simp add: positive_dict_set)
          from Cons.prems(3) have 2: "0 \<le> max m (rl_rank ?rl)" by simp
          from kept Some Cons nv Cons.prems(4)
          have "single_words ranks ws (dict_set (rl_ids ?rl) ?rl lexm, max m (rl_rank ?rl))
                  = Inr (lexm', m')"
            by (simp add: Let_def)
          from Cons.IH[OF Cons.prems(1) 1 2 this] show ?thesis .
        qed
      qed
    qed
  qed
qed

lemma find_chunk_sub_subset:
  "find_chunk_sub phrase np i = Inr (Some p) \<Longrightarrow> set p \<subseteq> set phrase"
  by (auto simp: find_chunk_sub_def split: sum.splits bool.splits
      dest: in_set_takeD in_set_dropD)

lemma find_chunk_from_subset:
  "find_chunk_from phrase np is = Inr (Some p) \<Longrightarrow> set p \<subseteq> set phrase"
proof (induction "is")
  case Nil
  then show ?case by simp
next
  case (Cons i "is")
  then show ?case
    by (auto split: sum.splits option.splits list.splits dest: find_chunk_sub_subset)
qed

lemma collect_chunks_loop_subset:
  "collect_chunks_loop phrase t nps = (found, ys, e) \<Longrightarrow>
   (np, Some p) \<in> set ys \<Longrightarrow> set p \<subseteq> set phrase"
proof (induction nps arbitrary: found ys e)
  case Nil
  then show ?case by simp
next
  case (Cons n nps)
  show ?case
  proof (cases "n \<noteq> t")
    case False
    with Cons show ?thesis by simp
  next
    case True
    show ?thesis
    proof (cases "find_chunk phrase (split_str CHR '' '' n)")
      case (Inl err)
      with True Cons.prems show ?thesis by simp
    next
      case (Inr r)
      obtain f' ys' e' where rec: "collect_chunks_loop phrase t nps = (f', ys', e')"
        by (cases "collect_chunks_loop phrase t nps")
      with True Inr Cons.prems have ys: "ys = (n, r) # ys'" by simp
      with Cons.prems(2) consider "(np, Some p) = (n, r)" | "(np, Some p) \<in> set ys'" by auto
      then show ?thesis
      proof cases
        case 1
        with Inr show ?thesis
          by (auto simp: find_chunk_def dest: find_chunk_from_subset)
      next
        case 2
        from Cons.IH[OF rec 2] show ?thesis .
      qed
    qed
  qed
qed

lemma collect_chunks_subset:
  "collect_chunks c phrase = (ys, e) \<Longrightarrow> (np, Some p) \<in> set ys \<Longrightarrow> set p \<subseteq> set phrase"
proof -
  assume cc: "collect_chunks c phrase = (ys, e)" and m: "(np, Some p) \<in> set ys"
  let ?t = "join_str CHR '' '' (map rl_text phrase)"
  obtain f' ys' e' where rec: "collect_chunks_loop phrase ?t (noun_phrases c ?t) = (f', ys', e')"
    by (cases "collect_chunks_loop phrase ?t (noun_phrases c ?t)")
  from cc m rec consider "(np, Some p) \<in> set ys'" | "p = phrase"
    by (auto simp: collect_chunks_def Let_def split: if_splits option.splits)
  then show ?thesis
  proof cases
    case 1
    from collect_chunks_loop_subset[OF rec 1] show ?thesis .
  next
    case 2
    then show ?thesis by simp
  qed
qed

lemma sum_squares_positive:
  "positive_lexemes p \<Longrightarrow> p \<noteq> [] \<Longrightarrow> 0 < sum_list (map (\<lambda>rl. (rl_rank rl)\<^sup>2) p)"
proof (induction p)
  case Nil
  then show ?case by simp
next
  case (Cons rl p)
  then have a: "0 < (rl_rank rl)\<^sup>2" by simp
  have b: "0 \<le> sum_list (map (\<lambda>rl. (rl_rank rl)\<^sup>2) p)"
    by (rule sum_list_nonneg) auto
  from add_pos_nonneg[OF a b] show ?case by simp
qed

lemma np_rank_positive:
  "positive_lexemes p \<Longrightarrow> p \<noteq> [] \<Longrightarrow> 0 \<le> m \<Longrightarrow> 0 < np_rank p m"
proof -
  assume p: "positive_lexemes p" "p \<noteq> []" and m: "0 \<le> m"
  from sum_squares_positive[OF p] have "0 < sqrt (sum_list (map (\<lambda>rl. (rl_rank rl)\<^sup>2) p))"
    by simp
  moreover from p(2) have "0 < real (length p)" by simp
  ultimately have "0 < sqrt (sum_list (map (\<lambda>rl. (rl_rank rl)\<^sup>2) p)) / real (length p)"
    by (rule divide_pos_pos)
  with m show ?thesis by (simp add: np_rank_def)
qed

lemma add_chunks_positive:
  "add_chunks c m ys lexm = Inr lexm' \<Longrightarrow> 0 \<le> m \<Longrightarrow> positive_lexemes (map snd lexm) \<Longrightarrow>
   (\<And>np p. (np, Some p) \<in> set ys \<Longrightarrow> positive_lexemes p) \<Longrightarrow>
   positive_lexemes (map snd lexm')"
proof (induction c m ys lexm rule: add_chunks.induct)
  case (1 c m lexm)
  then show ?case by simp
next
  case (2 c m t ys lexm)
  then show ?case by simp
next
  case (3 c m t ys lexm)
  then show ?case by simp
next
  case (4 c m t x xs ys lexm)
  let ?rl = "np_lexeme c t (x # xs) m"
  from "4.prems"(4)[of t "x # xs"] have "positive_lexemes (x # xs)" by simp
  from np_rank_positive[OF this _ "4.prems"(2)] have "0 < rl_rank ?rl"
    by (simp add: np_lexeme_def)
  with "4.prems"(3) have pl: "positive_lexemes (map snd (dict_set (rl_ids ?rl) ?rl lexm))"
    by (simp add: positive_dict_set)
  from "4.prems"(1) have run: "add_chunks c m ys (dict_set (rl_ids ?rl) ?rl lexm) = Inr lexm'"
    by (simp add: Let_def)
  have rest: "\<And>np p. (np, Some p) \<in> set ys \<Longrightarrow> positive_lexemes p"
  proof -
    fix np p
    assume "(np, Some p) \<in> set ys"
    then have "(np, Some p) \<in> set ((t, Some (x # xs)) # ys)" by simp
    then show "positive_lexemes p" by (rule "4.prems"(4))
  qed
  from "4.IH"[OF refl run "4.prems"(2) pl rest] show ?case .
qed

lemma flush_phrase_positive:
  "flush_phrase c m phrase lexm = Inr lexm' \<Longrightarrow> 0 \<le> m \<Longrightarrow>
   positive_lexemes (map snd lexm) \<Longrightarrow> positive_lexemes phrase \<Longrightarrow>
   positive_lexemes (map snd lexm')"
proof -
  assume f: "flush_phrase c m phrase lexm = Inr lexm'" and m: "0 \<le> m"
    and pl: "positive_lexemes (map snd lexm)" and pp: "positive_lexemes phrase"
  obtain ys e where cc: "collect_chunks c phrase = (ys, e)"
    by (cases "collect_chunks c phrase")
  with f have ac: "add_chunks c m ys lexm = Inr lexm'"
    by (auto simp: flush_phrase_def split: sum.splits option.splits)
  have "\<And>np p. (np, Some p) \<in> set ys \<Longrightarrow> positive_lexemes p"
    using collect_chunks_subset[OF cc] positive_lexemes_subset[OF pp] by blast
  from add_chunks_positive[OF ac m pl this] show ?thesis .
qed

lemma phrase_loop_positive:
  "positive_ranks ranks \<Longrightarrow> 0 \<le> m \<Longrightarrow>
   phrase_loop c ranks m ws (last_idx, phrase, lexm) = Inr (l, phrase', lexm') \<Longrightarrow>
   positive_lexemes phrase \<Longrightarrow> positive_lexemes (map snd lexm) \<Longrightarrow>
   positive_lexemes (map snd lexm')"
proof (induction ws arbitrary: last_idx phrase lexm)
  case Nil
  then show ?case by simp
next
  case (Cons w ws)
  show ?case
  proof (cases "if word_id w > 0 \<and> idx w - last_idx = 1 then ranks (root w) else None")
    case (Some r)
    then have "ranks (root w) = Some r" by (simp split: if_splits)
    with Cons.prems(1) have "0 < r" by (simp add: positive_ranks_def)
    then have pp: "positive_lexemes (phrase @ [word_lexeme w r])"
      using Cons.prems(4) by (simp add: word_lexeme_def)
    from Some Cons.prems(3)
    have "phrase_loop c ranks m ws (idx w, phrase @ [word_lexeme w r], lexm) = Inr (l, phrase', lexm')"
      by simp
    from Cons.IH[OF Cons.prems(1,2) this pp Cons.prems(5)] show ?thesis .
  next
    case None
    show ?thesis
    proof (cases "flush_phrase c m phrase lexm")
      case (Inl err)
      with None Cons.prems(3) show ?thesis by simp
    next
      case (Inr lexm1)
      from flush_phrase_positive[OF Inr Cons.prems(2,5,4)]
      have pl: "positive_lexemes (map snd lexm1)" .
      from None Inr Cons.prems(3)
      have "phrase_loop c ranks m ws (idx w, [], lexm1) = Inr (l, phrase', lexm')"
        by simp
      from Cons.IH[OF Cons.prems(1,2) this _ pl] show ?thesis by simp
    qed
  qed
qed

lemma noun_phrases_of_positive:
  "positive_ranks ranks \<Longrightarrow> 0 \<le> m \<Longrightarrow> noun_phrases_of c ranks m sent lexm = Inr lexm' \<Longrightarrow>
   positive_lexemes (map snd lexm) \<Longrightarrow> positive_lexemes (map snd lexm')"
proof -
  assume pr: "positive_ranks ranks" and m: "0 \<le> m"
    and n: "noun_phrases_of c ranks m sent lexm = Inr lexm'"
    and pl: "positive_lexemes (map snd lexm)"
  from n obtain w0 ws where s: "sent = w0 # ws"
    by (cases sent) (simp_all add: noun_phrases_of_def)
  from n obtain l ph where
    "phrase_loop c ranks m sent (idx w0 - 1, [], lexm) = Inr (l, ph, lexm')"
    unfolding s noun_phrases_of_def
    by (auto simp del: phrase_loop.simps split: sum.splits)
  from phrase_loop_positive[OF pr m this _ pl] show ?thesis by simp
qed

lemma collect_lex_positive:
  "positive_ranks ranks \<Longrightarrow> collect_lex c ranks sents (lexm, m) = Inr (lexm', m') \<Longrightarrow>
   positive_lexemes (map snd lexm) \<Longrightarrow> 0 \<le> m \<Longrightarrow> positive_lexemes (map snd lexm')"
proof (induction sents arbitrary: lexm m)
  case Nil
  then show ?case by simp
next
  case (Cons sent sents)
  from Cons.prems(2) obtain lexm1 m1 where sw: "single_words ranks sent (lexm, m) = Inr (lexm1, m1)"
    by (auto split: sum.splits)
  from Cons.prems(2) sw obtain lexm2 where np: "noun_phrases_of c ranks m1 sent lexm1 = Inr lexm2"
    by (auto split: sum.splits)
  from Cons.prems(2) sw np have rest: "collect_lex c ranks sents (lexm2, m1) = Inr (lexm', m')"
    by simp
  from single_words_positive[OF Cons.prems(1,3,4) sw]
  have p1: "positive_lexemes (map snd lexm1)" and m1: "0 \<le> m1" by simp_all
  from noun_phrases_of_positive[OF Cons.prems(1) m1 np p1]
  have p2: "positive_lexemes (map snd lexm2)" .
  from Cons.IH[OF Cons.prems(1) rest p2 m1] show ?case .
qed

lemma positive_sum:
  "positive_lexemes rls \<Longrightarrow> rls \<noteq> [] \<Longrightarrow> 0 < sum_list (map rl_rank rls)"
proof (induction rls)
  case Nil
  then show ?case by simp
next
  case (Cons rl rls)
  then have a: "0 < rl_rank rl" by simp
  from Cons.prems(1) have b: "0 \<le> sum_list (map rl_rank rls)"
    by (intro sum_list_nonneg) (auto simp: positive_lexemes_def list_all_iff less_imp_le)
  from add_pos_nonneg[OF a b] show ?case by simp
qed

text \<open>
  Claim C8. For every rank map with positive scores and every corpus on which the
  collection pass ends with a non-empty lexeme map, \<open>normalize_key_phrases\<close> yields one
  lexeme per entry of the map, and the yielded ranks sum to 1 within the tolerance
  \<open>1e-6\<close>.
\<close>

theorem normalized_ranks_sum_to_one:
  "positive_ranks ranks \<Longrightarrow> collect_lex c ranks sents ([], 0) = Inr (lexm, m) \<Longrightarrow>
   lexm \<noteq> [] \<Longrightarrow>
   \<exists>ys. normalize_key_phrases c sents ranks = Inr ys \<and> length ys = length lexm \<and>
        \<bar>sum_list (map rl_rank ys) - 1\<bar> \<le> 1 / 10 ^ 6"
proof -
  assume pr: "positive_ranks ranks" and cl: "collect_lex c ranks sents ([], 0) = Inr (lexm, m)"
    and ne: "lexm \<noteq> []"
  from collect_lex_positive[OF pr cl] have "positive_lexemes (map snd lexm)" by simp
  from positive_sum[OF this] ne have "0 < sum_list (map rl_rank (map snd lexm))" by simp
  then have "sum_list (map (\<lambda>kv. rl_rank (snd kv)) lexm) \<noteq> 0" by (simp add: comp_def)
  from normalize_ranks_sum[OF ne this] obtain ys where
    "normalize_ranks lexm = Inr ys" "length ys = length lexm" "sum_list (map rl_rank ys) = 1"
    by blast
  with cl show ?thesis by (simp add: normalize_key_phrases_def)
qed

theorem normalized_ranks_sum_to_one_witness:
  "normalize_key_phrases
     \<lparr>noun_phrases = (\<lambda>t. []), set_order = (\<lambda>xs. sort (remdups xs))\<rparr>
     [[\<lparr>word_id = 1, raw = ''Big'', root = ''big'', pos = ''JJ'', keep = 1, idx = 0\<rparr>,
       \<lparr>word_id = 2, raw = ''red'', root = ''red'', pos = ''JJ'', keep = 1, idx = 1\<rparr>,
       \<lparr>word_id = 0, raw = '','', root = '','', pos = ''.'', keep = 0, idx = 2\<rparr>,
       \<lparr>word_id = 3, raw = ''dogs'', root = ''dog'', pos = ''NNS'', keep = 1, idx = 3\<rparr>]]
     [''big'' \<mapsto> 3/10, ''red'' \<mapsto> 4/10, ''dog'' \<mapsto> 1/2] =
   Inr [\<lparr>rl_text = ''big red'', rl_rank = 3/5, rl_ids = [1, 2], rl_pos = ''np''\<rparr>,
        \<lparr>rl_text = ''dogs'', rl_rank = 2/5, rl_ids = [3], rl_pos = ''nns''\<rparr>] \<and>
   \<bar>sum_list (map rl_rank
       [\<lparr>rl_text = ''big red'', rl_rank = 3/5, rl_ids = [1, 2], rl_pos = ''np''\<rparr>,
        \<lparr>rl_text = ''dogs'', rl_rank = 2/5, rl_ids = [3], rl_pos = ''nns''\<rparr>]) - 1\<bar>
     \<le> 1 / 10 ^ 6"
proof -
  let ?c = "\<lparr>noun_phrases = (\<lambda>t. []), set_order = (\<lambda>xs. sort (remdups xs))\<rparr>"
  let ?ranks = "[''big'' \<mapsto> 3/10, ''red'' \<mapsto> 4/10, ''dog'' \<mapsto> (1/2 :: real)]"
  let ?sents = "[[\<lparr>word_id = 1, raw = ''Big'', root = ''big'', pos = ''JJ'', keep = 1, idx = 0\<rparr>,
       \<lparr>word_id = 2, raw = ''red'', root = ''red'', pos = ''JJ'', keep = 1, idx = 1\<rparr>,
       \<lparr>word_id = 0, raw = '','', root = '','', pos = ''.'', keep = 0, idx = 2\<rparr>,
       \<lparr>word_id = 3, raw = ''dogs'', root = ''dog'', pos = ''NNS'', keep = 1, idx = 3\<rparr>]]"
  let ?lexm = "[([3], \<lparr>rl_text = ''dogs'', rl_rank = 1/2, rl_ids = [3], rl_pos = ''nns''\<rparr>),
         ([1, 2], \<lparr>rl_text = ''big red'', rl_rank = 3/4, rl_ids = [1, 2], rl_pos = ''np''\<rparr>)]"
  have pr: "positive_ranks ?ranks"
    by (simp add: positive_ranks_def)
  have cl: "collect_lex ?c ?ranks ?sents ([], 0) = Inr (?lexm, 1/2)"
    by (simp add: nkp_defs np_rank_def sqrt_quarter)
  have ne: "?lexm \<noteq> []" by simp
  have ev: "normalize_key_phrases ?c ?sents ?ranks =
     Inr [\<lparr>rl_text = ''big red'', rl_rank = 3/5, rl_ids = [1, 2], rl_pos = ''np''\<rparr>,
          \<lparr>rl_text = ''dogs'', rl_rank = 2/5, rl_ids = [3], rl_pos = ''nns''\<rparr>]"
    by (simp add: nkp_defs np_rank_def sqrt_quarter)
  from normalized_ranks_sum_to_one[OF pr cl ne] ev show ?thesis
    by simp
qed

text \<open>
  The \<open>while\<close> loop over a sentence, split at any position; the position it ends with;
  and its run over tokens that all keep collecting.
\<close>

lemma phrase_loop_append:
  "phrase_loop c ranks m (xs @ ys) st =
     (case phrase_loop c ranks m xs st of Inl e \<Rightarrow> Inl e | Inr st' \<Rightarrow> phrase_loop c ranks m ys st')"
proof (induction xs arbitrary: st)
  case Nil
  show ?case by simp
next
  case (Cons w ws)
  obtain last_idx phrase lexm where st: "st = (last_idx, phrase, lexm)"
    by (cases st)
  show ?case
    unfolding st by (simp add: Cons.IH split: option.splits sum.splits)
qed

lemma phrase_loop_last:
  "phrase_loop c ranks m ws st = Inr (l, ph, lx) \<Longrightarrow> ws \<noteq> [] \<Longrightarrow> l = idx (last ws)"
proof (induction ws arbitrary: st)
  case Nil
  then show ?case by simp
next
  case (Cons w ws)
  obtain last_idx phrase lexm where st: "st = (last_idx, phrase, lexm)"
    by (cases st)
  show ?case
  proof (cases "ws = []")
    case True
    with Cons.prems show ?thesis
      unfolding st by (auto split: option.splits sum.splits if_splits)
  next
    case False
    with Cons.prems Cons.IH show ?thesis
      unfolding st by (auto split: option.splits sum.splits if_splits)
  qed
qed

lemma phrase_loop_run:
  "collecting_run ranks last_idx run \<Longrightarrow>
   phrase_loop c ranks m run (last_idx, phrase, lexm) =
     Inr (if run = [] then last_idx else idx (last run), phrase @ run_lexemes ranks run, lexm)"
proof (induction run arbitrary: last_idx phrase)
  case Nil
  show ?case by (simp add: run_lexemes_def)
next
  case (Cons w ws)
  from Cons.prems obtain r where r: "ranks (root w) = Some r"
    and w: "word_id w > 0" "idx w - last_idx = 1" and rest: "collecting_run ranks (idx w) ws"
    by auto
  from Cons.IH[OF rest, of "phrase @ [word_lexeme w r]"] r w show ?case
    by (simp add: run_lexemes_def)
qed

lemma noun_phrases_of_nonempty:
  "sent \<noteq> [] \<Longrightarrow>
   noun_phrases_of c ranks m sent lexm =
     (case phrase_loop c ranks m sent (idx (hd sent) - 1, [], lexm) of
        Inl e \<Rightarrow> Inl e
      | Inr st \<Rightarrow> Inr (snd (snd st)))"
  by (cases sent) (simp_all add: noun_phrases_of_def split: sum.splits del: phrase_loop.simps)

text \<open>
  Claim C10. Let a sentence end with a non-empty run of kept, ranked tokens, each at
  position gap 1 from the token before it (\<open>pre\<close> is the part of the sentence before the
  run). Then the noun-phrase pass over the whole sentence leaves the lexeme map as the
  pass over \<open>pre\<close> alone does (unchanged when \<open>pre\<close> is empty): the loop only appends the
  run's lexemes to the accumulator, whatever the chunker would return, and the
  accumulator is dropped at the end of the sentence.
\<close>

theorem trailing_run_not_flushed:
  "run \<noteq> [] \<Longrightarrow>
   collecting_run ranks (if pre = [] then idx (hd run) - 1 else idx (last pre)) run \<Longrightarrow>
   noun_phrases_of c ranks m (pre @ run) lexm =
     (if pre = [] then Inr lexm else noun_phrases_of c ranks m pre lexm) \<and>
   phrase_loop c ranks m run
       (if pre = [] then idx (hd run) - 1 else idx (last pre), phrase, lx) =
     Inr (idx (last run), phrase @ run_lexemes ranks run, lx)"
proof (intro conjI)
  assume run: "run \<noteq> []"
    and cr: "collecting_run ranks (if pre = [] then idx (hd run) - 1 else idx (last pre)) run"
  let ?l = "if pre = [] then idx (hd run) - 1 else idx (last pre)"
  from phrase_loop_run[OF cr, of c m phrase lx] run
  show "phrase_loop c ranks m run (?l, phrase, lx) = Inr (idx (last run), phrase @ run_lexemes ranks run, lx)"
    by simp
  show "noun_phrases_of c ranks m (pre @ run) lexm =
     (if pre = [] then Inr lexm else noun_phrases_of c ranks m pre lexm)"
  proof (cases "pre = []")
    case True
    with cr have "collecting_run ranks (idx (hd run) - 1) run" by simp
    from phrase_loop_run[OF this, of c m "[]" lexm] run True show ?thesis
      by (simp add: noun_phrases_of_nonempty)
  next
    case False
    let ?st0 = "(idx (hd pre) - 1, [], lexm)"
    from False have whole: "noun_phrases_of c ranks m (pre @ run) lexm =
        (case phrase_loop c ranks m (pre @ run) ?st0 of
           Inl e \<Rightarrow> Inl e | Inr st \<Rightarrow> Inr (snd (snd st)))"
      using noun_phrases_of_nonempty[of "pre @ run" c ranks m lexm] by simp
    from False have part: "noun_phrases_of c ranks m pre lexm =
        (case phrase_loop c ranks m pre ?st0 of
           Inl e \<Rightarrow> Inl e | Inr st \<Rightarrow> Inr (snd (snd st)))"
      by (rule noun_phrases_of_nonempty)
    show ?thesis
    proof (cases "phrase_loop c ranks m pre ?st0")
      case (Inl e)
      with False show ?thesis
        unfolding whole part phrase_loop_append by simp
    next
      case (Inr st)
      obtain l ph lexm' where st: "st = (l, ph, lexm')" by (cases st)
      from phrase_loop_last[OF Inr[unfolded st] False] have l: "l = idx (last pre)" .
      from cr False l have "collecting_run ranks l run" by simp
      from phrase_loop_run[OF this, of c m ph lexm'] Inr st False show ?thesis
        unfolding whole part phrase_loop_append by simp
    qed
  qed
qed

theorem trailing_run_not_flushed_witness:
  "collecting_run [''big'' \<mapsto> 3/10, ''dog'' \<mapsto> 1/2] 0
     [\<lparr>word_id = 1, raw = ''big'', root = ''big'', pos = ''JJ'', keep = 1, idx = 1\<rparr>,
      \<lparr>word_id = 3, raw = ''dogs'', root = ''dog'', pos = ''NNS'', keep = 1, idx = 2\<rparr>] \<and>
   noun_phrases_of
     \<lparr>noun_phrases = (\<lambda>t. [''big'']), set_order = (\<lambda>xs. sort (remdups xs))\<rparr>
     [''big'' \<mapsto> 3/10, ''dog'' \<mapsto> 1/2] (1/2)
     [\<lparr>word_id = 0, raw = ''The'', root = ''the'', pos = ''DT'', keep = 0, idx = 0\<rparr>,
      \<lparr>word_id = 1, raw = ''big'', root = ''big'', pos = ''JJ'', keep = 1, idx = 1\<rparr>,
      \<lparr>word_id = 3, raw = ''dogs'', root = ''dog'', pos = ''NNS'', keep = 1, idx = 2\<rparr>] []
     = Inr []"
  using trailing_run_not_flushed[of
     "[\<lparr>word_id = 1, raw = ''big'', root = ''big'', pos = ''JJ'', keep = 1, idx = 1\<rparr>,
      \<lparr>word_id = 3, raw = ''dogs'', root = ''dog'', pos = ''NNS'', keep = 1, idx = 2\<rparr>]"
     "[''big'' \<mapsto> 3/10, ''dog'' \<mapsto> 1/2]"
     "[\<lparr>word_id = 0, raw = ''The'', root = ''the'', pos = ''DT'', keep = 0, idx = 0\<rparr>]"
     "\<lparr>noun_phrases = (\<lambda>t. [''big'']), set_order = (\<lambda>xs. sort (remdups xs))\<rparr>"
     "1/2" "[]" "[]" "[]"]
  by (simp add: noun_phrases_of_def flush_phrase_def collect_chunks_def)

section \<open>Properties of parse_doc\<close>

text \<open>
  \<open>parse_doc\<close> over a concatenation of document lists, and at a document whose record
  lacks a key that is read.
\<close>

lemma parse_doc_append:
  "parse_doc env reg (xs @ ys) =
     (case parse_doc env reg xs of
        (a, Some e, r) \<Rightarrow> (a, Some e, r)
      | (a, None, r) \<Rightarrow> (case parse_doc env r ys of (b, e, r') \<Rightarrow> (a @ b, e, r')))"
proof (induction xs arbitrary: reg)
  case Nil
  show ?case by (simp split: prod.splits)
next
  case (Cons meta metas)
  show ?case
    by (simp add: Cons.IH split: option.splits prod.splits)
qed

lemma parse_doc_missing_key:
  assumes "meta ''text'' = None \<or>
           (meta ''id'' = None \<and> (\<exists>txt. meta ''text'' = Some txt \<and> filter_quotes txt \<noteq> []))"
  shows "parse_doc env reg (meta # rest) = ([], Some KeyError, reg)"
proof (cases "meta ''text''")
  case None
  then show ?thesis by simp
next
  case (Some body)
  with assms have no_id: "meta ''id'' = None" and ne: "filter_quotes body \<noteq> []" by auto
  from ne obtain g gs where "filter_quotes body = g # gs" by (cases "filter_quotes body") auto
  with Some no_id show ?thesis by simp
qed

text \<open>
  Claim C9, counterexample. The first record has no \<open>text\<close>, the second is well formed.
  \<open>parse_doc\<close> raises \<open>KeyError\<close> at the first record and yields nothing: the second
  document is never parsed, and the registry is as before.
\<close>

theorem parse_doc_aborts_after_malformed:
  "parse_doc example_tagging UNIQ_WORDS
     [[''id'' \<mapsto> ''1''], [''id'' \<mapsto> ''2'', ''text'' \<mapsto> ''Dogs bark .'']]
   = ([], Some KeyError, UNIQ_WORDS)"
  by simp

text \<open>
  Claim C9, amended. At a document record that lacks the text body, or that lacks the
  identifier while its text has at least one paragraph, \<open>parse_doc\<close> raises \<open>KeyError\<close>.
  The sentences yielded for the documents before it and the registry entries committed
  for them are what they were, and the generator ends there: whatever documents follow
  (\<open>rest\<close>), none of them is processed.
\<close>

theorem parse_doc_malformed:
  "parse_doc env reg docs = (ys, None, reg') \<Longrightarrow>
   meta ''text'' = None \<or>
     (meta ''id'' = None \<and> (\<exists>txt. meta ''text'' = Some txt \<and> filter_quotes txt \<noteq> [])) \<Longrightarrow>
   parse_doc env reg (docs @ meta # rest) = (ys, Some KeyError, reg')"
  by (simp add: parse_doc_append parse_doc_missing_key del: parse_doc.simps)

text \<open>
  Witness for C9: a well-formed document, then a record without identifier, then another
  well-formed document, run with the stand-in collaborators.
\<close>

lemmas parse_defs = parse_graf_def filter_quotes_def split_grafs_def strip_def is_space_def
  is_not_word_def is_word_char_def get_word_id_def UNIQ_WORDS_def example_tagging_def
  split_str_def lower_def lower_char_def Let_def

lemma parse_doc_example:
  "parse_doc example_tagging UNIQ_WORDS [[''id'' \<mapsto> ''2'', ''text'' \<mapsto> ''Dogs bark .'']]
   = ([\<lparr>pg_id = ''2'', pg_sha1 = ''da39a3ee'',
        pg_graf =
          [\<lparr>word_id = 1, raw = ''Dogs'', root = ''dogs'', pos = ''NN'', keep = 1, idx = 0\<rparr>,
           \<lparr>word_id = 2, raw = ''bark'', root = ''bark'', pos = ''NN'', keep = 1, idx = 1\<rparr>,
           \<lparr>word_id = 0, raw = ''.'', root = ''.'', pos = ''.'', keep = 0, idx = 2\<rparr>]\<rparr>],
      None, [(''.'', 0), (''dogs'', 1), (''bark'', 2)])"
  by (simp add: parse_defs)

theorem parse_doc_malformed_witness:
  "parse_doc example_tagging UNIQ_WORDS [[''id'' \<mapsto> ''2'', ''text'' \<mapsto> ''Dogs bark .'']]
   = ([\<lparr>pg_id = ''2'', pg_sha1 = ''da39a3ee'',
        pg_graf =
          [\<lparr>word_id = 1, raw = ''Dogs'', root = ''dogs'', pos = ''NN'', keep = 1, idx = 0\<rparr>,
           \<lparr>word_id = 2, raw = ''bark'', root = ''bark'', pos = ''NN'', keep = 1, idx = 1\<rparr>,
           \<lparr>word_id = 0, raw = ''.'', root = ''.'', pos = ''.'', keep = 0, idx = 2\<rparr>]\<rparr>],
      None, [(''.'', 0), (''dogs'', 1), (''bark'', 2)]) \<and>
   filter_quotes ''Cats purr'' \<noteq> [] \<and>
   parse_doc example_tagging UNIQ_WORDS
     [[''id'' \<mapsto> ''2'', ''text'' \<mapsto> ''Dogs bark .''],
      [''text'' \<mapsto> ''Cats purr''],
      [''id'' \<mapsto> ''4'', ''text'' \<mapsto> ''Birds sing'']]
   = ([\<lparr>pg_id = ''2'', pg_sha1 = ''da39a3ee'',
        pg_graf =
          [\<lparr>word_id = 1, raw = ''Dogs'', root = ''dogs'', pos = ''NN'', keep = 1, idx = 0\<rparr>,
           \<lparr>word_id = 2, raw = ''bark'', root = ''bark'', pos = ''NN'', keep = 1, idx = 1\<rparr>,
           \<lparr>word_id = 0, raw = ''.'', root = ''.'', pos = ''.'', keep = 0, idx = 2\<rparr>]\<rparr>],
      Some KeyError, [(''.'', 0), (''dogs'', 1), (''bark'', 2)])"
proof -
  let ?good = "[''id'' \<mapsto> ''2'', ''text'' \<mapsto> ''Dogs bark .'']"
  let ?bad = "[''text'' \<mapsto> ''Cats purr'']"
  let ?later = "[''id'' \<mapsto> ''4'', ''text'' \<mapsto> ''Birds sing'']"
  have fq: "filter_quotes ''Cats purr'' \<noteq> []"
    by (simp add: parse_defs)
  then have bad: "?bad ''text'' = None \<or>
     (?bad ''id'' = None \<and> (\<exists>txt. ?bad ''text'' = Some txt \<and> filter_quotes txt \<noteq> []))"
    by simp
  have "parse_doc example_tagging UNIQ_WORDS ([?good] @ ?bad # [?later]) =
      ([\<lparr>pg_id = ''2'', pg_sha1 = ''da39a3ee'',
        pg_graf =
          [\<lparr>word_id = 1, raw = ''Dogs'', root = ''dogs'', pos = ''NN'', keep = 1, idx = 0\<rparr>,
           \<lparr>word_id = 2, raw = ''bark'', root = ''bark'', pos = ''NN'', keep = 1, idx = 1\<rparr>,
           \<lparr>word_id = 0, raw = ''.'', root = ''.'', pos = ''.'', keep = 0, idx = 2\<rparr>]\<rparr>],
      Some KeyError, [(''.'', 0), (''dogs'', 1), (''bark'', 2)])"
    by (rule parse_doc_malformed[OF parse_doc_example bad])
  then have "parse_doc example_tagging UNIQ_WORDS [?good, ?bad, ?later] =
      ([\<lparr>pg_id = ''2'', pg_sha1 = ''da39a3ee'',
        pg_graf =
          [\<lparr>word_id = 1, raw = ''Dogs'', root = ''dogs'', pos = ''NN'', keep = 1, idx = 0\<rparr>,
           \<lparr>word_id = 2, raw = ''bark'', root = ''bark'', pos = ''NN'', keep = 1, idx = 1\<rparr>,
           \<lparr>word_id = 0, raw = ''.'', root = ''.'', pos = ''.'', keep = 0, idx = 2\<rparr>]\<rparr>],
      Some KeyError, [(''.'', 0), (''dogs'', 1), (''bark'', 2)])"
    by (simp only: append.simps)
  with parse_doc_example fq show ?thesis
    by (intro conjI)
qed

end
